theory Spec2Isabelle
  imports Complex_Main
begin

section \<open>PGMORL: predictor history, weight generation, performance buffer, selection, training loop\<close>

text \<open>
  A shallow embedding of \<^verbatim>\<open>morl_baselines/multi_policy/pgmorl/pgmorl.py\<close>.

  Conventions of the embedding:
  \<^item> a Python or numpy float is a \<^typ>\<open>real\<close>: rounding, overflow to infinity and NaN
    are outside the model;
  \<^item> a one-dimensional numpy array is a \<^typ>\<open>real list\<close>; elementwise operations follow
    numpy's broadcasting of one-dimensional shapes and raise \<^verbatim>\<open>ValueError\<close> otherwise;
  \<^item> a Python exception is a value \<open>Inl e\<close> of a sum type; a loop that need not end is a
    \<^theory_text>\<open>partial_function\<close> into \<open>option\<close>, where \<open>None\<close> is "does not return";
  \<^item> \<^verbatim>\<open>print\<close> and the logging calls to the writer are left out.
\<close>

subsection \<open>Exceptions and numpy helpers\<close>

datatype error = ValueError | IndexError | TypeError | ZeroDivisionError | OverflowError

type_synonym vec = "real list"

text \<open>Elementwise binary operation on two one-dimensional arrays, with broadcasting.\<close>

definition np_broadcast :: "(real \<Rightarrow> real \<Rightarrow> 'b) \<Rightarrow> vec \<Rightarrow> vec \<Rightarrow> error + 'b list" where
  "np_broadcast f a b =
     (if length a = length b then Inr (map2 f a b)
      else if length a = 1 then Inr (map (f (hd a)) b)
      else if length b = 1 then Inr (map (\<lambda>x. f x (hd b)) a)
      else Inl ValueError)"

definition np_add :: "vec \<Rightarrow> vec \<Rightarrow> error + vec" where
  "np_add a b = np_broadcast (+) a b"

definition np_sub :: "vec \<Rightarrow> vec \<Rightarrow> error + vec" where
  "np_sub a b = np_broadcast (-) a b"

definition np_abs :: "vec \<Rightarrow> vec" where
  "np_abs a = map abs a"

definition np_all :: "bool list \<Rightarrow> bool" where
  "np_all bs = list_all (\<lambda>b. b) bs"

text \<open>\<^verbatim>\<open>np.linalg.norm\<close> of a one-dimensional array: the Euclidean norm.\<close>

definition linalg_norm :: "vec \<Rightarrow> real" where
  "linalg_norm v = sqrt (sum_list (map (\<lambda>x. x * x) v))"

text \<open>\<^verbatim>\<open>np.clip(x, lo, hi)\<close> on a scalar; \<^verbatim>\<open>float("inf")\<close> as an upper bound is \<open>None\<close>.\<close>

definition np_clip :: "real \<Rightarrow> real \<Rightarrow> real option \<Rightarrow> real" where
  "np_clip x lo hi = (case hi of None \<Rightarrow> max lo x | Some h \<Rightarrow> min h (max lo x))"

text \<open>Python's \<^verbatim>\<open>int(x)\<close> on a float: truncation towards zero.\<close>

definition py_int :: "real \<Rightarrow> int" where
  "py_int x = (if 0 \<le> x then \<lfloor>x\<rfloor> else \<lceil>x\<rceil>)"

text \<open>A list comprehension whose body may raise: the first exception ends it.\<close>

fun map_err :: "('a \<Rightarrow> error + 'b) \<Rightarrow> 'a list \<Rightarrow> error + 'b list" where
  "map_err f [] = Inr []"
| "map_err f (x # xs) =
     (case f x of
        Inl e \<Rightarrow> Inl e
      | Inr y \<Rightarrow> (case map_err f xs of Inl e \<Rightarrow> Inl e | Inr ys \<Rightarrow> Inr (y # ys)))"

subsection \<open>PerformancePredictor\<close>

record PerformancePredictor =
  previous_performance :: "vec list"
  next_performance :: "vec list"
  used_weight :: "vec list"
  neighborhood_threshold :: real
  A_bound_min :: real
  A_bound_max :: real
  f_scale :: real
  sigma :: real

definition PerformancePredictor_init ::
  "real \<Rightarrow> real \<Rightarrow> real \<Rightarrow> real \<Rightarrow> real \<Rightarrow> PerformancePredictor" where
  "PerformancePredictor_init neighborhood_threshold' sigma' A_bound_min' A_bound_max' f_scale' =
     \<lparr> previous_performance = [], next_performance = [], used_weight = [],
       neighborhood_threshold = neighborhood_threshold',
       A_bound_min = A_bound_min', A_bound_max = A_bound_max',
       f_scale = f_scale', sigma = sigma' \<rparr>"

text \<open>The constructor's default arguments.\<close>

definition PerformancePredictor_default :: PerformancePredictor where
  "PerformancePredictor_default = PerformancePredictor_init (1 / 10) (3 / 100) 1 500 20"

definition PerformancePredictor_add ::
  "PerformancePredictor \<Rightarrow> vec \<Rightarrow> vec \<Rightarrow> vec \<Rightarrow> PerformancePredictor" where
  "PerformancePredictor_add p weight eval_before_pg eval_after_pg =
     p\<lparr> previous_performance := previous_performance p @ [eval_before_pg],
        next_performance := next_performance p @ [eval_after_pg],
        used_weight := used_weight p @ [weight] \<rparr>"

text \<open>A sequence of \<^verbatim>\<open>add\<close> calls, each given as (weight, eval before, eval after).\<close>

fun PerformancePredictor_add_all ::
  "PerformancePredictor \<Rightarrow> (vec \<times> vec \<times> vec) list \<Rightarrow> PerformancePredictor" where
  "PerformancePredictor_add_all p [] = p"
| "PerformancePredictor_add_all p ((w, b, a) # calls) =
     PerformancePredictor_add_all (PerformancePredictor_add p w b a) calls"

text \<open>
  The neighbourhood search of \<^verbatim>\<open>predict_next_evaluation\<close>. The state of the
  \<^verbatim>\<open>while\<close> loop is the three neighbour lists and the two enlarged parameters.
\<close>

record neighborhood =
  neighbor_weights :: "vec list"
  neighbor_deltas :: "vec list"
  neighbor_next_perf :: "vec list"
  current_sigma :: real
  current_neighb_threshold :: real

text \<open>
  \<^verbatim>\<open>np.all(np.abs(previous_perf - policy_eval) < current_neighb_threshold * np.abs(policy_eval))\<close>
\<close>

definition in_neighborhood :: "vec \<Rightarrow> vec \<Rightarrow> real \<Rightarrow> error + bool" where
  "in_neighborhood previous_perf policy_eval threshold =
     (case np_sub previous_perf policy_eval of
        Inl e \<Rightarrow> Inl e
      | Inr d \<Rightarrow>
          (case np_broadcast (<) (np_abs d) (map (\<lambda>x. threshold * x) (np_abs policy_eval)) of
             Inl e \<Rightarrow> Inl e
           | Inr bs \<Rightarrow> Inr (np_all bs)))"

text \<open>
  The \<^verbatim>\<open>for\<close> loop over \<^verbatim>\<open>zip(previous_performance, next_performance, used_weight)\<close>:
  a sample is appended when it lies in the neighbourhood and its next performance is not yet
  among the neighbours (the membership test sees the appends of the same pass).
\<close>

fun filter_neighbors ::
  "vec \<Rightarrow> real \<Rightarrow> (vec \<times> vec \<times> vec) list \<Rightarrow> vec list \<times> vec list \<times> vec list
     \<Rightarrow> error + (vec list \<times> vec list \<times> vec list)" where
  "filter_neighbors policy_eval threshold [] acc = Inr acc"
| "filter_neighbors policy_eval threshold ((previous_perf, next_perf, neighb_w) # samples) (nw, nd, nn) =
     (case in_neighborhood previous_perf policy_eval threshold of
        Inl e \<Rightarrow> Inl e
      | Inr near \<Rightarrow>
          if near \<and> next_perf \<notin> set nn then
            (case np_sub next_perf previous_perf of
               Inl e \<Rightarrow> Inl e
             | Inr delta \<Rightarrow>
                 filter_neighbors policy_eval threshold samples
                   (nw @ [neighb_w], nd @ [delta], nn @ [next_perf]))
          else filter_neighbors policy_eval threshold samples (nw, nd, nn))"

definition samples_of :: "PerformancePredictor \<Rightarrow> (vec \<times> vec \<times> vec) list" where
  "samples_of p = zip (previous_performance p) (zip (next_performance p) (used_weight p))"

definition enlarge :: "PerformancePredictor \<Rightarrow> vec \<Rightarrow> neighborhood \<Rightarrow> error + neighborhood" where
  "enlarge p policy_eval st =
     (let sigma' = current_sigma st * 2;
          threshold' = current_neighb_threshold st * 2
      in case filter_neighbors policy_eval threshold' (samples_of p)
                (neighbor_weights st, neighbor_deltas st, neighbor_next_perf st) of
           Inl e \<Rightarrow> Inl e
         | Inr (nw, nd, nn) \<Rightarrow>
             Inr \<lparr> neighbor_weights = nw, neighbor_deltas = nd, neighbor_next_perf = nn,
                   current_sigma = sigma', current_neighb_threshold = threshold' \<rparr>)"

text \<open>
  \<^verbatim>\<open>while len(neighbor_weights) < 4:\<close> with no bound on the number of passes.
\<close>

partial_function (option) find_neighbors ::
  "PerformancePredictor \<Rightarrow> vec \<Rightarrow> neighborhood \<Rightarrow> (error + neighborhood) option" where
  "find_neighbors p policy_eval st =
     (if length (neighbor_weights st) < 4 then
        (case enlarge p policy_eval st of
           Inl e \<Rightarrow> Some (Inl e)
         | Inr st' \<Rightarrow> find_neighbors p policy_eval st')
      else Some (Inr st))"

definition initial_neighborhood :: "PerformancePredictor \<Rightarrow> neighborhood" where
  "initial_neighborhood p =
     \<lparr> neighbor_weights = [], neighbor_deltas = [], neighbor_next_perf = [],
       current_sigma = sigma p / 2, current_neighb_threshold = neighborhood_threshold p / 2 \<rparr>"

text \<open>
  The regression \<^verbatim>\<open>__build_model_and_predict\<close> (a bounded least-squares fit by scipy, in
  floating point) is a parameter \<open>build_model_and_predict\<close> of the model, called with
  training weights, training deltas, training next performances, the dimension, the current
  evaluation, the weight candidate and sigma. It may raise.
\<close>

type_synonym regression =
  "vec list \<Rightarrow> vec list \<Rightarrow> vec list \<Rightarrow> nat \<Rightarrow> vec \<Rightarrow> vec \<Rightarrow> real \<Rightarrow> error + real"

definition predict_next_evaluation ::
  "regression \<Rightarrow> PerformancePredictor \<Rightarrow> vec \<Rightarrow> vec \<Rightarrow> (error + vec \<times> vec) option" where
  "predict_next_evaluation build_model_and_predict p weight_candidate policy_eval =
     (case find_neighbors p policy_eval (initial_neighborhood p) of
        None \<Rightarrow> None
      | Some (Inl e) \<Rightarrow> Some (Inl e)
      | Some (Inr st) \<Rightarrow>
          (case map_err
                  (\<lambda>obj_num. build_model_and_predict (neighbor_weights st) (neighbor_deltas st)
                     (neighbor_next_perf st) obj_num policy_eval weight_candidate (current_sigma st))
                  [0..<length weight_candidate] of
             Inl e \<Rightarrow> Some (Inl e)
           | Inr delta_predictions \<Rightarrow>
               (case np_add delta_predictions policy_eval of
                  Inl e \<Rightarrow> Some (Inl e)
                | Inr predicted \<Rightarrow> Some (Inr (delta_predictions, predicted)))))"

text \<open>A regression that always answers 0, to run the predictor on concrete histories.\<close>

definition constant_regression :: regression where
  "constant_regression tw td tn d ce wc sg = Inr 0"

subsection \<open>generate_weights\<close>

text \<open>
  \<^verbatim>\<open>np.linspace(start, stop, num)\<close> on two arrays of the same length, end point included:
  a negative \<open>num\<close> raises, \<open>num = 1\<close> gives the start alone, and otherwise row \<open>i\<close> is
  \<open>start + i * (stop - start) / (num - 1)\<close>.
\<close>

definition np_linspace :: "vec \<Rightarrow> vec \<Rightarrow> int \<Rightarrow> error + vec list" where
  "np_linspace start stop num =
     (if num < 0 then Inl ValueError
      else if num = 1 then Inr [start]
      else Inr (map (\<lambda>i. map2 (\<lambda>a b. a + real i * ((b - a) / real_of_int (num - 1))) start stop)
                  [0..<nat num]))"

definition generate_weights :: "real \<Rightarrow> error + vec list" where
  "generate_weights delta_weight =
     (if delta_weight = 0 then Inl ZeroDivisionError
      else np_linspace [0, 1] [1, 0] (py_int (1 / delta_weight) + 1))"

text \<open>
  Python's \<^verbatim>\<open>round(x)\<close>, to the nearest integer with ties to the even one: the rounding the
  specification of the weight generator names. It is not used by the code.
\<close>

definition py_round :: "real \<Rightarrow> int" where
  "py_round x =
     (let f = \<lfloor>x\<rfloor> in
      if x - of_int f < 1 / 2 then f
      else if 1 / 2 < x - of_int f then f + 1
      else if even f then f else f + 1)"

subsection \<open>PerformanceBuffer\<close>

text \<open>
  The two parallel lists of bins are kept as in the class. The stored individuals are values of
  any type \<open>'a\<close>; \<^verbatim>\<open>deepcopy(candidate)\<close> yields an equal value.
\<close>

record 'a PerformanceBuffer =
  num_bins :: int
  max_size :: int
  origin :: vec
  dtheta :: real
  bins :: "'a list list"
  bins_evals :: "vec list list"

text \<open>\<^verbatim>\<open>np.pi / 2.0 / self.num_bins\<close> divides Python floats: zero bins raise.\<close>

definition PerformanceBuffer_init :: "int \<Rightarrow> int \<Rightarrow> vec \<Rightarrow> error + 'a PerformanceBuffer" where
  "PerformanceBuffer_init num_bins' max_size' ref_point =
     (if num_bins' = 0 then Inl ZeroDivisionError
      else Inr \<lparr> num_bins = num_bins', max_size = max_size',
                 origin = map uminus ref_point,
                 dtheta = pi / 2 / real_of_int num_bins',
                 bins = replicate (nat num_bins') [],
                 bins_evals = replicate (nat num_bins') [] \<rparr>)"

definition evaluations :: "'a PerformanceBuffer \<Rightarrow> vec list" where
  "evaluations pb = concat (bins_evals pb)"

definition individuals :: "'a PerformanceBuffer \<Rightarrow> 'a list" where
  "individuals pb = concat (bins pb)"

definition center_eval :: "'a PerformanceBuffer \<Rightarrow> vec \<Rightarrow> error + vec" where
  "center_eval pb eval =
     (case np_add eval (origin pb) of
        Inl e \<Rightarrow> Inl e
      | Inr s \<Rightarrow> Inr (map (\<lambda>x. np_clip x 0 None) s))"

text \<open>
  The \<^verbatim>\<open>for i in range(len(self.bins[buffer_id]))\<close> loop of a full bin, over the bin and its
  evaluations: the first occupant whose centred norm is below the candidate's is overwritten
  and the loop ends (\<^verbatim>\<open>break\<close>).
\<close>

fun replace_first ::
  "'a PerformanceBuffer \<Rightarrow> real \<Rightarrow> 'a \<Rightarrow> vec \<Rightarrow> 'a list \<Rightarrow> vec list \<Rightarrow> error + ('a list \<times> vec list)" where
  "replace_first pb norm_eval candidate evaluation [] es = Inr ([], es)"
| "replace_first pb norm_eval candidate evaluation (x # xs) [] = Inl IndexError"
| "replace_first pb norm_eval candidate evaluation (x # xs) (e # es) =
     (case center_eval pb e of
        Inl err \<Rightarrow> Inl err
      | Inr stored_eval_centered \<Rightarrow>
          if linalg_norm stored_eval_centered < norm_eval then Inr (candidate # xs, evaluation # es)
          else (case replace_first pb norm_eval candidate evaluation xs es of
                  Inl err \<Rightarrow> Inl err
                | Inr (xs', es') \<Rightarrow> Inr (x # xs', e # es')))"

text \<open>
  \<^verbatim>\<open>int(theta // self.dtheta)\<close>, with \<open>theta\<close> the angle of the centred evaluation. A zero
  \<open>dtheta\<close> (which the constructor never produces) makes the quotient infinite or NaN, and
  \<^verbatim>\<open>int\<close> raises on both.
\<close>

definition theta_of :: "vec \<Rightarrow> real" where
  "theta_of centered_eval =
     arccos (np_clip (centered_eval ! 1 / (linalg_norm centered_eval + 1 / 1000)) (- 1) (Some 1))"

definition buffer_id_of :: "'a PerformanceBuffer \<Rightarrow> vec \<Rightarrow> error + int" where
  "buffer_id_of pb evaluation =
     (case center_eval pb evaluation of
        Inl e \<Rightarrow> Inl e
      | Inr centered_eval \<Rightarrow>
          if length centered_eval < 2 then Inl IndexError
          else if dtheta pb = 0 then
            Inl (if theta_of centered_eval = 0 then ValueError else OverflowError)
          else Inr (py_int (of_int \<lfloor>theta_of centered_eval / dtheta pb\<rfloor>)))"

definition PerformanceBuffer_add ::
  "'a PerformanceBuffer \<Rightarrow> 'a \<Rightarrow> vec \<Rightarrow> error + 'a PerformanceBuffer" where
  "PerformanceBuffer_add pb candidate evaluation =
     (case center_eval pb evaluation of
        Inl e \<Rightarrow> Inl e
      | Inr centered_eval \<Rightarrow>
          (case buffer_id_of pb evaluation of
             Inl e \<Rightarrow> Inl e
           | Inr buffer_id \<Rightarrow>
               if buffer_id < 0 \<or> buffer_id \<ge> num_bins pb then Inr pb
               else
                 let b = nat buffer_id in
                 if length (bins pb) \<le> b then Inl IndexError
                 else if int (length (bins pb ! b)) < max_size pb then
                   (if length (bins_evals pb) \<le> b then Inl IndexError
                    else Inr (pb\<lparr> bins := (bins pb)[b := bins pb ! b @ [candidate]],
                                  bins_evals := (bins_evals pb)[b := bins_evals pb ! b @ [evaluation]] \<rparr>))
                 else if bins pb ! b = [] then Inr pb
                 else if length (bins_evals pb) \<le> b then Inl IndexError
                 else
                   (case replace_first pb (linalg_norm centered_eval) candidate evaluation
                           (bins pb ! b) (bins_evals pb ! b) of
                      Inl e \<Rightarrow> Inl e
                    | Inr (xs', es') \<Rightarrow>
                        Inr (pb\<lparr> bins := (bins pb)[b := xs'],
                                 bins_evals := (bins_evals pb)[b := es'] \<rparr>))))"

text \<open>
  A sequence of \<^verbatim>\<open>add\<close> calls on one buffer. A call that raises leaves the buffer as it was
  (every exception of \<^verbatim>\<open>add\<close> on a constructed buffer comes before its first write), and the
  sequence goes on with the next call.
\<close>

fun PerformanceBuffer_add_all ::
  "'a PerformanceBuffer \<Rightarrow> ('a \<times> vec) list \<Rightarrow> 'a PerformanceBuffer" where
  "PerformanceBuffer_add_all pb [] = pb"
| "PerformanceBuffer_add_all pb ((candidate, evaluation) # calls) =
     (case PerformanceBuffer_add pb candidate evaluation of
        Inl e \<Rightarrow> PerformanceBuffer_add_all pb calls
      | Inr pb' \<Rightarrow> PerformanceBuffer_add_all pb' calls)"

subsection \<open>Agents and the object store\<close>

text \<open>
  An agent (class \<^verbatim>\<open>MOPPO\<close>, defined outside this file) as far as this file reads and writes
  it: its \<^verbatim>\<open>id\<close>, its \<^verbatim>\<open>global_step\<close>, its \<^verbatim>\<open>weights\<close>, and everything else (networks,
  optimiser, buffers) as one value \<open>policy\<close>.
\<close>

record 'n MOPPO =
  agent_id :: int
  global_step :: int
  weights :: vec
  policy :: 'n

text \<open>
  Modelled from the spec: \<^verbatim>\<open>MOPPO.change_weights\<close> is not in this file; the specification's
  \<^verbatim>\<open>set_weight(new_weight)\<close> "mutates scalarization weight in place".
\<close>

definition change_weights :: "'n MOPPO \<Rightarrow> vec \<Rightarrow> 'n MOPPO" where
  "change_weights a new_weights = a\<lparr> weights := new_weights \<rparr>"

text \<open>
  Agents are objects: the population archive and the worker slots hold references. The store
  is the list of all objects allocated so far and a reference is an index into it.
  \<^verbatim>\<open>deepcopy\<close> allocates a new object with the fields of the old one.
\<close>

type_synonym ref = nat

definition deepcopy :: "'n MOPPO list \<Rightarrow> ref \<Rightarrow> ref \<times> 'n MOPPO list" where
  "deepcopy store r = (length store, store @ [store ! r])"

subsection \<open>Task and weight selection\<close>

text \<open>
  The collaborators of \<^verbatim>\<open>__task_weight_selection\<close> are parameters: the predictor call
  \<open>predict weight eval\<close> (which may raise or not return), \<open>hypervolume\<close> and \<open>sparsity\<close>.
\<close>

record 'n selection =
  sel_store :: "'n MOPPO list"
  sel_agents :: "ref list"
  selected_tasks :: "(vec \<times> vec) list"
  current_front :: "vec list"

record scoring =
  predict :: "vec \<Rightarrow> vec \<Rightarrow> (error + vec \<times> vec) option"
  hypervolume :: "vec \<Rightarrow> vec list \<Rightarrow> real"
  sparsity :: "vec list \<Rightarrow> real"
  ref_point :: vec

text \<open>The pruned list comprehension \<^verbatim>\<open>candidate_tuples\<close>.\<close>

definition candidate_tuples_of :: "(vec \<times> vec) list \<Rightarrow> vec list \<Rightarrow> vec \<Rightarrow> (vec \<times> vec) list" where
  "candidate_tuples_of selected candidate_weights last_candidate_eval =
     map (\<lambda>weight. (last_candidate_eval, weight))
       (filter (\<lambda>weight. (last_candidate_eval, weight) \<notin> set selected) candidate_weights)"

text \<open>The predictions of a list of pairs, in order; the first call that fails ends them.\<close>

fun predict_all ::
  "scoring \<Rightarrow> (vec \<times> vec) list \<Rightarrow> (error + (vec \<times> vec) list) option" where
  "predict_all sc [] = Some (Inr [])"
| "predict_all sc ((candidate_eval, weight) # rest) =
     (case predict sc weight candidate_eval of
        None \<Rightarrow> None
      | Some (Inl e) \<Rightarrow> Some (Inl e)
      | Some (Inr r) \<Rightarrow>
          (case predict_all sc rest of
             None \<Rightarrow> None
           | Some (Inl e) \<Rightarrow> Some (Inl e)
           | Some (Inr rs) \<Rightarrow> Some (Inr (r # rs))))"

text \<open>\<^verbatim>\<open>np.max\<close> and \<^verbatim>\<open>np.argmax\<close> (the first index of the maximum) of a non-empty array.\<close>

definition np_max :: "real list \<Rightarrow> real" where
  "np_max xs = Max (set xs)"

definition np_argmax :: "real list \<Rightarrow> nat" where
  "np_argmax xs = length (takeWhile (\<lambda>x. x \<noteq> np_max xs) xs)"

definition mixture_metric :: "scoring \<Rightarrow> vec list \<Rightarrow> vec \<Rightarrow> real" where
  "mixture_metric sc front predicted_eval =
     hypervolume sc (ref_point sc) (front @ [predicted_eval]) - sparsity sc (front @ [predicted_eval])"

text \<open>
  The best pair so far: \<open>None\<close> while \<^verbatim>\<open>max_improv\<close> is \<^verbatim>\<open>float("-inf")\<close> and the three
  \<^verbatim>\<open>best_*\<close> variables are \<^verbatim>\<open>None\<close>, and afterwards the improvement, the candidate (a
  reference into the population), its weight, its last evaluation and the predicted one.
\<close>

type_synonym best = "(real \<times> ref \<times> vec \<times> vec \<times> vec) option"

text \<open>
  One pass of the inner loop, for one (candidate, last evaluation) of the population. Unpacking
  the two lists out of \<^verbatim>\<open>zip(*[])\<close> raises \<^verbatim>\<open>ValueError\<close> when every weight has been pruned.
\<close>

definition score_candidate ::
  "scoring \<Rightarrow> vec list \<Rightarrow> (vec \<times> vec) list \<Rightarrow> vec list \<Rightarrow> ref \<Rightarrow> vec \<Rightarrow> best
     \<Rightarrow> (error + best) option" where
  "score_candidate sc candidate_weights selected front candidate last_candidate_eval bst =
     (let candidate_tuples = candidate_tuples_of selected candidate_weights last_candidate_eval in
      case predict_all sc candidate_tuples of
        None \<Rightarrow> None
      | Some (Inl e) \<Rightarrow> Some (Inl e)
      | Some (Inr predictions) \<Rightarrow>
          if predictions = [] then Some (Inl ValueError)
          else
            let predicted_evals = map snd predictions;
                mixture_metrics = map (mixture_metric sc front) predicted_evals;
                current_candidate_weight = np_argmax mixture_metrics;
                current_candidate_improv = np_max mixture_metrics
            in if (case bst of None \<Rightarrow> True | Some (max_improv, _) \<Rightarrow> max_improv < current_candidate_improv)
               then Some (Inr (Some (current_candidate_improv, candidate,
                                     snd (candidate_tuples ! current_candidate_weight),
                                     last_candidate_eval,
                                     predicted_evals ! current_candidate_weight)))
               else Some (Inr bst))"

text \<open>The loop over \<^verbatim>\<open>zip(population, population_eval)\<close>.\<close>

fun scan_population ::
  "scoring \<Rightarrow> vec list \<Rightarrow> (vec \<times> vec) list \<Rightarrow> vec list \<Rightarrow> (ref \<times> vec) list \<Rightarrow> best
     \<Rightarrow> (error + best) option" where
  "scan_population sc candidate_weights selected front [] bst = Some (Inr bst)"
| "scan_population sc candidate_weights selected front ((candidate, last_candidate_eval) # rest) bst =
     (case score_candidate sc candidate_weights selected front candidate last_candidate_eval bst of
        None \<Rightarrow> None
      | Some (Inl e) \<Rightarrow> Some (Inl e)
      | Some (Inr bst') \<Rightarrow> scan_population sc candidate_weights selected front rest bst')"

text \<open>
  The body of \<^verbatim>\<open>for i in range(len(self.agents))\<close>: the selection for worker \<open>i\<close>, the two
  appends, and the installation of the copy. With an empty population nothing was chosen and
  \<^verbatim>\<open>tuple(best_eval)\<close> raises \<^verbatim>\<open>TypeError\<close>.
\<close>

definition assign_worker ::
  "scoring \<Rightarrow> vec list \<Rightarrow> (ref \<times> vec) list \<Rightarrow> nat \<Rightarrow> 'n selection \<Rightarrow> (error + 'n selection) option" where
  "assign_worker sc candidate_weights population i st =
     (case scan_population sc candidate_weights (selected_tasks st) (current_front st) population None of
        None \<Rightarrow> None
      | Some (Inl e) \<Rightarrow> Some (Inl e)
      | Some (Inr None) \<Rightarrow> Some (Inl TypeError)
      | Some (Inr (Some (max_improv, candidate, weight, best_eval, best_predicted_eval))) \<Rightarrow>
          (case deepcopy (sel_store st) candidate of
             (copied_agent, store') \<Rightarrow>
               let a = store' ! copied_agent;
                   a1 = a\<lparr> global_step := global_step (sel_store st ! (sel_agents st ! i)) \<rparr>;
                   a2 = a1\<lparr> agent_id := int i \<rparr>;
                   a3 = change_weights a2 weight
               in Some (Inr \<lparr> sel_store = store'[copied_agent := a3],
                               sel_agents = (sel_agents st)[i := copied_agent],
                               selected_tasks = selected_tasks st @ [(best_eval, weight)],
                               current_front = current_front st @ [best_predicted_eval] \<rparr>)))"

fun assign_workers ::
  "scoring \<Rightarrow> vec list \<Rightarrow> (ref \<times> vec) list \<Rightarrow> nat list \<Rightarrow> 'n selection \<Rightarrow> (error + 'n selection) option" where
  "assign_workers sc candidate_weights population [] st = Some (Inr st)"
| "assign_workers sc candidate_weights population (i # is) st =
     (case assign_worker sc candidate_weights population i st of
        None \<Rightarrow> None
      | Some (Inl e) \<Rightarrow> Some (Inl e)
      | Some (Inr st') \<Rightarrow> assign_workers sc candidate_weights population is st')"

text \<open>
  \<^verbatim>\<open>__task_weight_selection\<close>: \<open>shuffle\<close> is the permutation \<^verbatim>\<open>np.random.shuffle\<close> applies,
  \<open>archive_evaluations\<close> the evaluations of the Pareto archive, \<open>pb\<close> the population buffer
  (of references), \<open>store\<close> and \<open>agents\<close> the objects and the worker slots.
\<close>

definition task_weight_selection ::
  "scoring \<Rightarrow> (vec list \<Rightarrow> vec list) \<Rightarrow> real \<Rightarrow> vec list \<Rightarrow> ref PerformanceBuffer
     \<Rightarrow> 'n MOPPO list \<Rightarrow> ref list \<Rightarrow> (error + 'n selection) option" where
  "task_weight_selection sc shuffle delta_weight archive_evaluations pb store agents =
     (case generate_weights (delta_weight / 2) of
        Inl e \<Rightarrow> Some (Inl e)
      | Inr ws \<Rightarrow>
          assign_workers sc (shuffle ws) (zip (individuals pb) (evaluations pb)) [0..<length agents]
            \<lparr> sel_store = store, sel_agents = agents, selected_tasks = [],
              current_front = archive_evaluations \<rparr>)"

subsection \<open>The algorithm object: construction and the training loop\<close>

text \<open>
  The constructor arguments that decide the population and the loop bounds. The environment,
  the seeding, the logging and the PPO hyperparameters are left out.
\<close>

record arguments =
  num_envs :: int
  pop_size_arg :: int
  warmup_iterations :: int
  steps_per_iteration :: int
  limit_env_steps :: int
  evolutionary_iterations :: int
  delta_weight_arg :: real

text \<open>The defaults of \<^verbatim>\<open>PGMORL.__init__\<close>.\<close>

definition default_arguments :: arguments where
  "default_arguments =
     \<lparr> num_envs = 4, pop_size_arg = 6, warmup_iterations = 80, steps_per_iteration = 2048,
       limit_env_steps = 5000000, evolutionary_iterations = 20, delta_weight_arg = 1 / 5 \<rparr>"

record ('n, 'a) PGMORL =
  args :: arguments
  pop_size :: int
  max_iterations :: int
  iteration :: int
  networks :: "'n list"
  agents :: "'a list"

text \<open>Python's \<^verbatim>\<open>//\<close> on integers: the floor quotient, raising on a zero divisor.\<close>

definition py_floordiv :: "int \<Rightarrow> int \<Rightarrow> error + int" where
  "py_floordiv a b = (if b = 0 then Inl ZeroDivisionError else Inr (a div b))"

definition max_iterations_of :: "arguments \<Rightarrow> error + int" where
  "max_iterations_of a =
     (case py_floordiv (limit_env_steps a) (steps_per_iteration a) of
        Inl e \<Rightarrow> Inl e
      | Inr q \<Rightarrow> py_floordiv q (num_envs a))"

text \<open>
  \<^verbatim>\<open>PGMORL.__init__\<close>. \<open>new_network k\<close> stands for the \<open>k\<close>-th \<^verbatim>\<open>MOPPONet(...)\<close> and
  \<open>new_agent i net w\<close> for \<^verbatim>\<open>MOPPO(i, net, w, ...)\<close>. The networks are built for the
  \<^verbatim>\<open>pop_size\<close> argument; then \<^verbatim>\<open>self.pop_size\<close> is overwritten by the number of weights
  and the agents are built for that number, reading \<^verbatim>\<open>self.networks[i]\<close>.
\<close>

definition build_agents ::
  "(int \<Rightarrow> 'n \<Rightarrow> vec \<Rightarrow> 'a) \<Rightarrow> 'n list \<Rightarrow> vec list \<Rightarrow> nat \<Rightarrow> error + 'a list" where
  "build_agents new_agent nets ws n =
     map_err (\<lambda>i. if i < length nets then Inr (new_agent (int i) (nets ! i) (ws ! i))
                   else Inl IndexError) [0..<n]"

definition PGMORL_init ::
  "(nat \<Rightarrow> 'n) \<Rightarrow> (int \<Rightarrow> 'n \<Rightarrow> vec \<Rightarrow> 'a) \<Rightarrow> arguments \<Rightarrow> error + ('n, 'a) PGMORL" where
  "PGMORL_init new_network new_agent a =
     (case max_iterations_of a of
        Inl e \<Rightarrow> Inl e
      | Inr mi \<Rightarrow>
          (let nets = map new_network [0..<nat (pop_size_arg a)] in
           (case generate_weights (delta_weight_arg a) of
              Inl e \<Rightarrow> Inl e
            | Inr ws \<Rightarrow>
                (case build_agents new_agent nets ws (length ws) of
                   Inl e \<Rightarrow> Inl e
                 | Inr ags \<Rightarrow>
                     Inr \<lparr> args = a, pop_size = int (length ws), max_iterations = mi,
                           iteration = 0, networks = nets, agents = ags \<rparr>))))"





subsection \<open>Invariants and concrete inputs used in the properties\<close>

text \<open>
  The state of the neighbourhood search on a history with fewer than four distinct next
  performances, all vectors of the length of the policy evaluation: the neighbours found so far
  are distinct next performances of the history, one weight per neighbour.
\<close>

definition search_stuck :: "PerformancePredictor \<Rightarrow> vec \<Rightarrow> neighborhood \<Rightarrow> bool" where
  "search_stuck p pe st \<longleftrightarrow>
     length (remdups (next_performance p)) < 4 \<and>
     list_all (\<lambda>v. length v = length pe) (previous_performance p @ next_performance p) \<and>
     length (neighbor_weights st) = length (neighbor_next_perf st) \<and>
     distinct (neighbor_next_perf st) \<and>
     set (neighbor_next_perf st) \<subseteq> set (next_performance p)"

text \<open>A default predictor after three recorded samples with three different outcomes.\<close>

definition three_samples :: PerformancePredictor where
  "three_samples =
     PerformancePredictor_add_all PerformancePredictor_default
       [([0, 1], [0, 0], [1, 2]), ([1 / 2, 1 / 2], [0, 0], [2, 2]), ([1, 0], [0, 0], [2, 1])]"

text \<open>
  The invariant of a buffer: the two lists of bins are parallel, bin by bin, and no bin is
  longer than \<open>max_size\<close>.
\<close>

definition buffer_inv :: "'a PerformanceBuffer \<Rightarrow> bool" where
  "buffer_inv pb \<longleftrightarrow>
     length (bins_evals pb) = length (bins pb) \<and>
     (\<forall>b < length (bins pb).
        length (bins_evals pb ! b) = length (bins pb ! b) \<and>
        int (length (bins pb ! b)) \<le> max_size pb)"

text \<open>
  A buffer of one bin of capacity two for the reference point \<open>[0, 0]\<close>, holding the
  individuals 2 and 3 with evaluations \<open>[0, 3]\<close> and \<open>[0, 1]\<close>, and the same buffer when empty.
\<close>

definition two_bin :: "nat PerformanceBuffer" where
  "two_bin = \<lparr> num_bins = 1, max_size = 2, origin = [0, 0], dtheta = pi / 2,
               bins = [[2, 3]], bins_evals = [[[0, 3], [0, 1]]] \<rparr>"

definition empty_bin :: "nat PerformanceBuffer" where
  "empty_bin = \<lparr> num_bins = 1, max_size = 2, origin = [0, 0], dtheta = pi / 2,
                 bins = [[]], bins_evals = [[]] \<rparr>"

text \<open>The algorithm object built from the default arguments, with networks and agents opaque.\<close>

definition default_run :: "(unit, unit) PGMORL" where
  "default_run = \<lparr> args = default_arguments, pop_size = 6, max_iterations = 610, iteration = 0,
                   networks = [(), (), (), (), (), ()], agents = [(), (), (), (), (), ()] \<rparr>"

text \<open>
  What the inner loops of the selection keep true of the best pair so far: its individual and
  last evaluation come from the population, its weight is a candidate weight, and the pair of
  the evaluation and the weight has not been selected yet.
\<close>

definition best_ok :: "(vec \<times> vec) list \<Rightarrow> vec list \<Rightarrow> (ref \<times> vec) list \<Rightarrow> best \<Rightarrow> bool" where
  "best_ok selected candidate_weights population bst \<longleftrightarrow>
     (case bst of
        None \<Rightarrow> True
      | Some (max_improv, candidate, weight, last_eval, predicted) \<Rightarrow>
          (candidate, last_eval) \<in> set population \<and> weight \<in> set candidate_weights \<and>
          (last_eval, weight) \<notin> set selected)"

text \<open>
  A concrete generation. The collaborators: the predictor answers the candidate weight itself
  as predicted evaluation, the hypervolume of a front is the first component of its last point
  and the sparsity is 0. The store holds the agents of the two workers (references 0 and 1)
  and the two archived copies (references 2 and 3, the individuals of \<open>two_bin\<close>). Then the
  state before the first worker, after the first, and after the second.
\<close>

definition toy_scoring :: scoring where
  "toy_scoring =
     \<lparr> predict = (\<lambda>weight candidate_eval. Some (Inr (weight, weight))),
       hypervolume = (\<lambda>rp front. last front ! 0),
       sparsity = (\<lambda>front. 0),
       ref_point = [0, 0] \<rparr>"

definition toy_store :: "nat MOPPO list" where
  "toy_store =
     [\<lparr> agent_id = 0, global_step = 10, weights = [0, 1], policy = 100 \<rparr>,
      \<lparr> agent_id = 1, global_step = 20, weights = [1, 0], policy = 101 \<rparr>,
      \<lparr> agent_id = 0, global_step = 5, weights = [0, 1], policy = 102 \<rparr>,
      \<lparr> agent_id = 1, global_step = 7, weights = [1, 0], policy = 103 \<rparr>]"

definition toy_start :: "nat selection" where
  "toy_start = \<lparr> sel_store = toy_store, sel_agents = [0, 1], selected_tasks = [], current_front = [] \<rparr>"

definition toy_mid :: "nat selection" where
  "toy_mid = \<lparr> sel_store = toy_store @ [\<lparr> agent_id = 0, global_step = 10, weights = [1, 0], policy = 102 \<rparr>],
               sel_agents = [4, 1], selected_tasks = [([0, 3], [1, 0])], current_front = [[1, 0]] \<rparr>"

definition toy_end :: "nat selection" where
  "toy_end = \<lparr> sel_store = toy_store @ [\<lparr> agent_id = 0, global_step = 10, weights = [1, 0], policy = 102 \<rparr>,
                                       \<lparr> agent_id = 1, global_step = 20, weights = [1, 0], policy = 103 \<rparr>],
               sel_agents = [4, 5], selected_tasks = [([0, 3], [1, 0]), ([0, 1], [1, 0])],
               current_front = [[1, 0], [1, 0]] \<rparr>"

section \<open>Properties\<close>

subsection \<open>The predictor history\<close>

lemma add_all_previous:
  "previous_performance (PerformancePredictor_add_all p calls)
     = previous_performance p @ map (\<lambda>(w, b, a). b) calls"
  by (induction p calls rule: PerformancePredictor_add_all.induct)
     (simp_all add: PerformancePredictor_add_def)

lemma add_all_next:
  "next_performance (PerformancePredictor_add_all p calls)
     = next_performance p @ map (\<lambda>(w, b, a). a) calls"
  by (induction p calls rule: PerformancePredictor_add_all.induct)
     (simp_all add: PerformancePredictor_add_def)

lemma add_all_used:
  "used_weight (PerformancePredictor_add_all p calls)
     = used_weight p @ map (\<lambda>(w, b, a). w) calls"
  by (induction p calls rule: PerformancePredictor_add_all.induct)
     (simp_all add: PerformancePredictor_add_def)

text \<open>
  Claim C9. The three histories of the predictor stay parallel. After any sequence of
  \<^verbatim>\<open>add\<close> calls on a new predictor they are the three columns of the calls, in order, so
  they have the same length; one call appends exactly its three arguments, one to each history,
  and leaves every other field alone. \<^verbatim>\<open>add\<close> has no failing branch.
\<close>

theorem predictor_histories_parallel:
  "previous_performance (PerformancePredictor_add_all (PerformancePredictor_init nt sg amin amax fs) calls)
     = map (\<lambda>(w, b, a). b) calls \<and>
   next_performance (PerformancePredictor_add_all (PerformancePredictor_init nt sg amin amax fs) calls)
     = map (\<lambda>(w, b, a). a) calls \<and>
   used_weight (PerformancePredictor_add_all (PerformancePredictor_init nt sg amin amax fs) calls)
     = map (\<lambda>(w, b, a). w) calls \<and>
   length (previous_performance (PerformancePredictor_add_all (PerformancePredictor_init nt sg amin amax fs) calls))
     = length (next_performance (PerformancePredictor_add_all (PerformancePredictor_init nt sg amin amax fs) calls)) \<and>
   length (next_performance (PerformancePredictor_add_all (PerformancePredictor_init nt sg amin amax fs) calls))
     = length (used_weight (PerformancePredictor_add_all (PerformancePredictor_init nt sg amin amax fs) calls)) \<and>
   previous_performance (PerformancePredictor_add p weight eval_before_pg eval_after_pg)
     = previous_performance p @ [eval_before_pg] \<and>
   next_performance (PerformancePredictor_add p weight eval_before_pg eval_after_pg)
     = next_performance p @ [eval_after_pg] \<and>
   used_weight (PerformancePredictor_add p weight eval_before_pg eval_after_pg)
     = used_weight p @ [weight] \<and>
   neighborhood_threshold (PerformancePredictor_add p weight eval_before_pg eval_after_pg)
     = neighborhood_threshold p \<and>
   sigma (PerformancePredictor_add p weight eval_before_pg eval_after_pg) = sigma p \<and>
   A_bound_min (PerformancePredictor_add p weight eval_before_pg eval_after_pg) = A_bound_min p \<and>
   A_bound_max (PerformancePredictor_add p weight eval_before_pg eval_after_pg) = A_bound_max p \<and>
   f_scale (PerformancePredictor_add p weight eval_before_pg eval_after_pg) = f_scale p"
  by (simp add: add_all_previous add_all_next add_all_used PerformancePredictor_init_def
      PerformancePredictor_add_def)

subsection \<open>The neighbourhood search does not end on a short history\<close>

lemma np_broadcast_same: "length a = length b \<Longrightarrow> np_broadcast f a b = Inr (map2 f a b)"
  by (simp add: np_broadcast_def)

lemma in_neighborhood_ok:
  "length pp = length pe \<Longrightarrow> \<exists>b. in_neighborhood pp pe th = Inr b"
  by (simp add: in_neighborhood_def np_sub_def np_broadcast_same np_abs_def)

lemma filter_neighbors_ok:
  "\<forall>(pp, n, w) \<in> set samples. length pp = length pe \<and> length n = length pe
   \<Longrightarrow> \<exists>r. filter_neighbors pe th samples (nw, nd, nn) = Inr r"
proof (induction samples arbitrary: nw nd nn)
  case Nil
  then show ?case by simp
next
  case (Cons s samples)
  obtain pp n w where s: "s = (pp, n, w)" by (cases s) auto
  from Cons.prems s have lp: "length pp = length pe" and ln: "length n = length pp"
    and rest: "\<forall>(pp, n, w) \<in> set samples. length pp = length pe \<and> length n = length pe"
    by auto
  obtain b where b: "in_neighborhood pp pe th = Inr b"
    using in_neighborhood_ok [OF lp] by blast
  have sub: "np_sub n pp = Inr (map2 (-) n pp)"
    using ln by (simp add: np_sub_def np_broadcast_same)
  show ?case
    using Cons.IH [OF rest] by (simp add: s b sub)
qed

lemma filter_neighbors_inv:
  "filter_neighbors pe th samples (nw, nd, nn) = Inr (nw', nd', nn')
   \<Longrightarrow> length nw = length nn \<Longrightarrow> distinct nn \<Longrightarrow> set nn \<subseteq> S
   \<Longrightarrow> \<forall>(pp, n, w) \<in> set samples. n \<in> S
   \<Longrightarrow> length nw' = length nn' \<and> distinct nn' \<and> set nn' \<subseteq> S"
proof (induction samples arbitrary: nw nd nn)
  case Nil
  then show ?case by simp
next
  case (Cons s samples)
  obtain pp n w where s: "s = (pp, n, w)" by (cases s) auto
  from Cons.prems(5) s have nS: "n \<in> S" and rest: "\<forall>(pp, n, w) \<in> set samples. n \<in> S"
    by auto
  from Cons.prems(1) s obtain b where b: "in_neighborhood pp pe th = Inr b"
    by (auto split: sum.splits)
  show ?case
  proof (cases "b \<and> n \<notin> set nn")
    case True
    with Cons.prems(1) b s obtain d where
      run: "filter_neighbors pe th samples (nw @ [w], nd @ [d], nn @ [n]) = Inr (nw', nd', nn')"
      by (auto split: sum.splits)
    show ?thesis
      using Cons.IH [OF run _ _ _ rest] Cons.prems(2,3,4) True nS by simp
  next
    case False
    with Cons.prems(1) b s have run: "filter_neighbors pe th samples (nw, nd, nn) = Inr (nw', nd', nn')"
      by (auto split: sum.splits)
    show ?thesis
      using Cons.IH [OF run Cons.prems(2,3,4) rest] .
  qed
qed

lemma samples_of_set:
  "(pp, n, w) \<in> set (samples_of p) \<Longrightarrow> pp \<in> set (previous_performance p) \<and> n \<in> set (next_performance p)"
  unfolding samples_of_def by (auto dest: set_zip_leftD set_zip_rightD)

lemma search_stuck_short: "search_stuck p pe st \<Longrightarrow> length (neighbor_weights st) < 4"
proof -
  assume s: "search_stuck p pe st"
  then have "length (neighbor_weights st) = card (set (neighbor_next_perf st))"
    by (simp add: search_stuck_def distinct_card)
  also have "\<dots> \<le> card (set (next_performance p))"
    using s by (intro card_mono) (simp_all add: search_stuck_def)
  also have "\<dots> < 4"
    using s by (simp add: search_stuck_def length_remdups_card_conv)
  finally show ?thesis .
qed

lemma search_stuck_enlarge:
  assumes "search_stuck p pe st"
  shows "\<exists>st'. enlarge p pe st = Inr st' \<and> search_stuck p pe st'"
proof -
  let ?acc = "(neighbor_weights st, neighbor_deltas st, neighbor_next_perf st)"
  let ?th = "current_neighb_threshold st * 2"
  have shapes: "\<forall>(pp, n, w) \<in> set (samples_of p). length pp = length pe \<and> length n = length pe"
    using assms by (auto simp: search_stuck_def list_all_iff dest: samples_of_set)
  obtain nw nd nn where r: "filter_neighbors pe ?th (samples_of p) ?acc = Inr (nw, nd, nn)"
    using filter_neighbors_ok [OF shapes, of ?th] by (metis prod_cases3)
  have mem: "\<forall>(pp, n, w) \<in> set (samples_of p). n \<in> set (next_performance p)"
    by (auto dest: samples_of_set)
  have "length nw = length nn \<and> distinct nn \<and> set nn \<subseteq> set (next_performance p)"
    using filter_neighbors_inv [OF r _ _ _ mem] assms by (simp add: search_stuck_def)
  then show ?thesis
    using r assms by (simp add: enlarge_def Let_def search_stuck_def)
qed

lemma find_neighbors_stuck:
  assumes "search_stuck p pe st"
  shows "find_neighbors p pe st = None"
proof -
  have "\<not> search_stuck p pe st" if r: "find_neighbors p pe st = Some y" for y
  proof (rule find_neighbors.raw_induct [where P = "\<lambda>p pe st y. \<not> search_stuck p pe st", OF _ r])
    fix f :: "PerformancePredictor \<Rightarrow> vec \<Rightarrow> neighborhood \<Rightarrow> (error + neighborhood) option"
    fix p pe st y
    assume IH: "\<And>p pe st y. f p pe st = Some y \<Longrightarrow> \<not> search_stuck p pe st"
    assume body: "(if length (neighbor_weights st) < 4
                   then case enlarge p pe st of Inl e \<Rightarrow> Some (Inl e) | Inr st' \<Rightarrow> f p pe st'
                   else Some (Inr st)) = Some y"
    show "\<not> search_stuck p pe st"
    proof
      assume s: "search_stuck p pe st"
      then obtain st' where e: "enlarge p pe st = Inr st'" and s': "search_stuck p pe st'"
        using search_stuck_enlarge by blast
      from body search_stuck_short [OF s] e have "f p pe st' = Some y"
        by simp
      from IH [OF this] s' show False by simp
    qed
  qed
  with assms show ?thesis
    by (cases "find_neighbors p pe st") auto
qed

lemma predict_stuck:
  assumes "length (remdups (next_performance p)) < 4"
    and "list_all (\<lambda>v. length v = length policy_eval) (previous_performance p @ next_performance p)"
  shows "predict_next_evaluation build p weight_candidate policy_eval = None"
proof -
  have "search_stuck p policy_eval (initial_neighborhood p)"
    using assms by (simp add: search_stuck_def initial_neighborhood_def)
  then show ?thesis
    by (simp add: predict_next_evaluation_def find_neighbors_stuck)
qed

lemma three_samples_eq: "next_performance three_samples = [[1,2],[2,2],[2,1]]"
   "previous_performance three_samples = [[0,0],[0,0],[0,0]]"
  by (simp_all add: three_samples_def PerformancePredictor_default_def PerformancePredictor_init_def PerformancePredictor_add_def)

text \<open>
  Claim C1, as the code has it. The loop of \<^verbatim>\<open>predict_next_evaluation\<close> has no cap on the
  number of enlargements and no error branch. On a history with fewer than four distinct next
  performances (all vectors as long as the policy evaluation, so that numpy raises nothing) the
  call does not return: it neither raises nor yields a prediction.
\<close>

theorem predict_never_returns_below_four:
  assumes "length (remdups (next_performance p)) < 4"
    and "list_all (\<lambda>v. length v = length policy_eval) (previous_performance p @ next_performance p)"
  shows "predict_next_evaluation build_model_and_predict p weight_candidate policy_eval = None"
  using assms by (rule predict_stuck)

theorem predict_never_returns_below_four_witness:
  "length (remdups (next_performance three_samples)) < 4 \<and>
   list_all (\<lambda>v. length v = length [1, 1 :: real])
     (previous_performance three_samples @ next_performance three_samples) \<and>
   predict_next_evaluation constant_regression three_samples [1 / 2, 1 / 2] [1, 1] = None"
proof -
  have h1: "length (remdups (next_performance three_samples)) < 4"
    by (simp add: three_samples_eq)
  have h2: "list_all (\<lambda>v. length v = length [1, 1 :: real])
              (previous_performance three_samples @ next_performance three_samples)"
    by (simp add: three_samples_eq)
  show ?thesis
    using h1 h2 predict_never_returns_below_four [OF h1 h2, of constant_regression "[1 / 2, 1 / 2]"]
    by simp
qed

text \<open>
  Claim C1 as stated fails: with three recorded samples the call raises no error, after no
  number of enlargements; it does not return at all.
\<close>

theorem predict_three_samples_diverges:
  "predict_next_evaluation constant_regression three_samples [1 / 2, 1 / 2] [1, 1] = None"
  by (rule predict_stuck) (simp_all add: three_samples_eq)

subsection \<open>The weight generator\<close>

lemma generate_weights_rows:
  assumes "0 < d" "d \<le> 1"
  shows "generate_weights d =
           Inr (map (\<lambda>i. [real i / of_int \<lfloor>1 / d\<rfloor>, 1 - real i / of_int \<lfloor>1 / d\<rfloor>])
                  [0..<nat \<lfloor>1 / d\<rfloor> + 1])"
    and "1 \<le> \<lfloor>1 / d\<rfloor>"
proof -
  have "1 \<le> 1 / d" using assms by simp
  then show n1: "1 \<le> \<lfloor>1 / d\<rfloor>" by linarith
  have pi: "py_int (1 / d) = \<lfloor>1 / d\<rfloor>" using assms by (simp add: py_int_def)
  have nn: "nat (\<lfloor>1 / d\<rfloor> + 1) = nat \<lfloor>1 / d\<rfloor> + 1" using n1 by linarith
  have n0: "\<lfloor>1 / d\<rfloor> + 1 \<noteq> 1" "\<not> \<lfloor>1 / d\<rfloor> + 1 < 0" using n1 by linarith+
  have d0: "d \<noteq> 0" using assms by simp
  show "generate_weights d =
           Inr (map (\<lambda>i. [real i / of_int \<lfloor>1 / d\<rfloor>, 1 - real i / of_int \<lfloor>1 / d\<rfloor>])
                  [0..<nat \<lfloor>1 / d\<rfloor> + 1])"
    unfolding generate_weights_def np_linspace_def pi
    by (simp only: n0 d0 if_False nn) simp
qed

lemma generate_weights_length:
  "generate_weights d = Inr ws \<Longrightarrow> int (length ws) = py_int (1 / d) + 1"
  by (auto simp: generate_weights_def np_linspace_def split: if_splits)

lemma generate_weights_fifth:
  "generate_weights (1 / 5) =
     Inr [[0, 1], [1 / 5, 4 / 5], [2 / 5, 3 / 5], [3 / 5, 2 / 5], [4 / 5, 1 / 5], [1, 0]]"
  by (simp add: generate_weights_def np_linspace_def py_int_def upt_rec)

text \<open>
  Claim C3, as the code has it. For a spacing \<open>0 < d \<le> 1\<close> the generator returns exactly
  \<open>int(1/d) + 1\<close> vectors, the quotient truncated (here: its floor) and not rounded. Each has
  two components that sum to 1 (exactly, over the reals), the first is \<open>[0, 1]\<close>, the last
  is \<open>[1, 0]\<close>, and the first components increase strictly along the sequence.
\<close>

theorem generate_weights_interpolates:
  assumes "0 < d" "d \<le> 1"
  shows "\<exists>ws. generate_weights d = Inr ws \<and> length ws = nat \<lfloor>1 / d\<rfloor> + 1 \<and>
           (\<forall>w \<in> set ws. length w = 2 \<and> sum_list w = 1) \<and>
           hd ws = [0, 1] \<and> last ws = [1, 0] \<and>
           (\<forall>i j. i < j \<and> j < length ws \<longrightarrow> ws ! i ! 0 < ws ! j ! 0)"
proof -
  let ?n = "\<lfloor>1 / d\<rfloor>"
  let ?ws = "map (\<lambda>i. [real i / of_int ?n, 1 - real i / of_int ?n]) [0..<nat ?n + 1]"
  have gw: "generate_weights d = Inr ?ws" and n1: "1 \<le> ?n"
    using generate_weights_rows [OF assms] by simp_all
  have npos: "0 < (of_int ?n :: real)" using n1 by simp
  have len: "length ?ws = nat ?n + 1" by simp
  have rows: "\<forall>w \<in> set ?ws. length w = 2 \<and> sum_list w = 1" by auto
  have h: "hd ?ws = [0, 1]" by (simp add: upt_rec [of 0] del: upt_Suc)
  have "0 \<le> ?n" using n1 by linarith
  then have rn: "real (nat ?n) = of_int ?n" by (rule of_nat_nat)
  have nz: "(of_int ?n :: real) \<noteq> 0" using npos by linarith
  have "last ?ws = [real (nat ?n) / of_int ?n, 1 - real (nat ?n) / of_int ?n]"
    by simp
  also have "\<dots> = [1, 0]" unfolding rn using nz by simp
  finally have l: "last ?ws = [1, 0]" .
  have mono: "\<forall>i j. i < j \<and> j < length ?ws \<longrightarrow> ?ws ! i ! 0 < ?ws ! j ! 0"
  proof (intro allI impI)
    fix i j assume ij: "i < j \<and> j < length ?ws"
    then have i: "i < nat ?n + 1" and j: "j < nat ?n + 1" by simp_all
    have "?ws ! i ! 0 = real i / of_int ?n" using i by (simp add: nth_map_upt del: upt_Suc)
    moreover have "?ws ! j ! 0 = real j / of_int ?n" using j by (simp add: nth_map_upt del: upt_Suc)
    ultimately show "?ws ! i ! 0 < ?ws ! j ! 0"
      using ij npos by (simp add: divide_strict_right_mono)
  qed
  show ?thesis using gw len rows h l mono by blast
qed

theorem generate_weights_interpolates_witness:
  "(0::real) < 1 / 2 \<and> (1 / 2 :: real) \<le> 1 \<and>
   (\<exists>ws. generate_weights (1 / 2) = Inr ws \<and> length ws = 3 \<and>
         (\<forall>w \<in> set ws. length w = 2 \<and> sum_list w = 1) \<and>
         hd ws = [0, 1] \<and> last ws = [1, 0] \<and>
         (\<forall>i j. i < j \<and> j < length ws \<longrightarrow> ws ! i ! 0 < ws ! j ! 0))"
  using generate_weights_interpolates [of "1 / 2"] by simp

text \<open>
  Claim C3 as stated fails on the number of vectors: for the spacing \<open>3/5\<close> the code returns the
  two extremes only, where \<open>round(1/d) + 1\<close> is 3.
\<close>

theorem generate_weights_truncates:
  "generate_weights (3 / 5) = Inr [[0, 1], [1, 0]] \<and> py_round (1 / (3 / 5)) + 1 = 3"
  by (simp add: generate_weights_def np_linspace_def py_int_def py_round_def Let_def upt_rec)

subsection \<open>The population built by the constructor\<close>

lemma map_err_length: "map_err f xs = Inr ys \<Longrightarrow> length ys = length xs"
  by (induction xs arbitrary: ys) (auto split: sum.splits)

lemma init_agents:
  assumes "PGMORL_init nn na a = Inr g"
  shows "\<exists>ws. generate_weights (delta_weight_arg a) = Inr ws \<and> length (agents g) = length ws \<and> pop_size g = int (length ws)"
  using assms
  by (auto simp: PGMORL_init_def build_agents_def Let_def split: sum.splits dest: map_err_length)

lemma default_run_init:
  "PGMORL_init (\<lambda>k. ()) (\<lambda>i n w. ()) default_arguments = Inr default_run"
  by (simp add: PGMORL_init_def default_arguments_def max_iterations_of_def py_floordiv_def
      generate_weights_fifth build_agents_def upt_rec default_run_def Let_def)

text \<open>
  Claim C10. When the constructor returns, the number of agents is the number of generated
  warm-up weights, \<open>int(1 / delta_weight) + 1\<close>, and \<^verbatim>\<open>self.pop_size\<close> holds that number:
  the \<^verbatim>\<open>pop_size\<close> argument only sizes the list of networks, and two constructions that
  differ in it alone have the same number of agents. (A \<^verbatim>\<open>pop_size\<close> argument below that
  number makes \<^verbatim>\<open>self.networks[i]\<close> raise, so that the constructor does not return.)
\<close>

theorem population_size_from_weights:
  assumes "PGMORL_init nn na a = Inr g"
    and "PGMORL_init nn na (a\<lparr> pop_size_arg := k \<rparr>) = Inr g'"
  shows "int (length (agents g)) = py_int (1 / delta_weight_arg a) + 1 \<and>
         pop_size g = py_int (1 / delta_weight_arg a) + 1 \<and>
         length (agents g') = length (agents g)"
  using init_agents [OF assms(1)] init_agents [OF assms(2)] 
  by (auto dest: generate_weights_length)

theorem population_size_from_weights_witness:
  "PGMORL_init (\<lambda>k. ()) (\<lambda>i n w. ()) default_arguments = Inr default_run \<and>
   PGMORL_init (\<lambda>k. ()) (\<lambda>i n w. ()) (default_arguments\<lparr> pop_size_arg := 8 \<rparr>)
     = Inr (default_run\<lparr> args := default_arguments\<lparr> pop_size_arg := 8 \<rparr>,
                        networks := [(), (), (), (), (), (), (), ()] \<rparr>) \<and>
   int (length (agents default_run)) = py_int (1 / delta_weight_arg default_arguments) + 1 \<and>
   length (agents default_run) = 6 \<and> pop_size default_run = 6 \<and>
   length (agents (default_run\<lparr> args := default_arguments\<lparr> pop_size_arg := 8 \<rparr>,
                                 networks := [(), (), (), (), (), (), (), ()] \<rparr>)) = 6"
proof -
  have h1: "PGMORL_init (\<lambda>k. ()) (\<lambda>i n w. ()) default_arguments = Inr default_run"
    by (rule default_run_init)
  have h2: "PGMORL_init (\<lambda>k. ()) (\<lambda>i n w. ()) (default_arguments\<lparr> pop_size_arg := 8 \<rparr>)
              = Inr (default_run\<lparr> args := default_arguments\<lparr> pop_size_arg := 8 \<rparr>,
                                 networks := [(), (), (), (), (), (), (), ()] \<rparr>)"
    by (simp add: PGMORL_init_def default_arguments_def max_iterations_of_def py_floordiv_def
        generate_weights_fifth build_agents_def upt_rec default_run_def Let_def)
  have l: "length (agents default_run) = 6" by (simp add: default_run_def)
  show ?thesis
    using h1 h2 l population_size_from_weights [OF h1 h2] by simp
qed

subsection \<open>The performance buffer\<close>

lemma linalg_norm_axis2: "linalg_norm [0, y] = \<bar>y\<bar>"
  by (simp add: linalg_norm_def)

lemma center_eval_origin0:
  "origin pb = [0, 0] \<Longrightarrow> center_eval pb [x, y] = Inr [max 0 x, max 0 y]"
  by (simp add: center_eval_def np_add_def np_broadcast_def np_clip_def)

lemma theta_axis1: "theta_of [x, 0] = pi / 2"
  by (simp add: theta_of_def np_clip_def)

lemma theta_axis2:
  assumes "0 < y"
  shows "0 \<le> theta_of [0, y] \<and> theta_of [0, y] < pi / 2"
proof -
  let ?r = "y / (y + 1 / 1000)"
  have r0: "0 < ?r" using assms by simp
  have r1: "?r < 1" using assms by simp
  have m: "min 1 (max (- 1) ?r) = ?r" using r0 r1 by linarith
  have "theta_of [0, y] = arccos (min 1 (max (- 1) (y / (\<bar>y\<bar> + 1 / 1000))))"
    by (simp add: theta_of_def np_clip_def linalg_norm_axis2)
  also have "\<bar>y\<bar> = y" using assms by simp
  finally have th: "theta_of [0, y] = arccos ?r" unfolding m .
  have "arccos ?r < arccos 0"
    using r0 r1 by (intro arccos_less_arccos) simp_all
  moreover have "0 \<le> arccos ?r"
    using r0 r1 by (intro arccos_lbound) simp_all
  ultimately show ?thesis by (simp add: th)
qed

lemma buffer_id_axis2:
  assumes "origin pb = [0, 0]" and "dtheta pb = pi / 2" and "0 < y"
  shows "buffer_id_of pb [0, y] = Inr 0"
proof -
  have c: "center_eval pb [0, y] = Inr [0, y]"
    using assms by (simp add: center_eval_origin0)
  have "0 \<le> theta_of [0, y] / (pi / 2)" "theta_of [0, y] / (pi / 2) < 1"
    using theta_axis2 [OF assms(3)] by simp_all
  then have "\<lfloor>theta_of [0, y] / (pi / 2)\<rfloor> = 0" by linarith
  moreover have "dtheta pb \<noteq> 0" unfolding assms(2) by simp
  ultimately show ?thesis
    by (simp add: buffer_id_of_def c py_int_def assms(2))
qed

lemma buffer_id_axis1:
  assumes "origin pb = [0, 0]" and "dtheta pb = pi / 2" and "0 \<le> x"
  shows "buffer_id_of pb [x, 0] = Inr 1"
proof -
  have c: "center_eval pb [x, 0] = Inr [x, 0]"
    using assms by (simp add: center_eval_origin0)
  have "dtheta pb \<noteq> 0" unfolding assms(2) by simp
  then show ?thesis
    by (simp add: buffer_id_of_def c theta_axis1 py_int_def assms(2))
qed

lemma two_bin_facts:
  "origin two_bin = [0, 0]" "dtheta two_bin = pi / 2" "num_bins two_bin = 1" "max_size two_bin = 2"
  "bins two_bin = [[2, 3]]" "bins_evals two_bin = [[[0, 3], [0, 1]]]"
  by (simp_all add: two_bin_def)

lemma two_bin_center: "center_eval two_bin [0, y] = Inr [0, max 0 y]"
  by (simp add: center_eval_origin0 two_bin_facts)

text \<open>
  Claim C7. When the bin index computed for the evaluation lies outside \<open>[0, num_bins)\<close>, the
  call returns normally and the buffer (every bin of both lists, and all other fields) is what
  it was.
\<close>

theorem add_out_of_range_noop:
  assumes "buffer_id_of pb evaluation = Inr buffer_id"
    and "buffer_id < 0 \<or> num_bins pb \<le> buffer_id"
  shows "PerformanceBuffer_add pb candidate evaluation = Inr pb"
  using assms
  by (auto simp: PerformanceBuffer_add_def buffer_id_of_def split: sum.splits if_splits)

theorem add_out_of_range_noop_witness:
  "buffer_id_of two_bin [1, 0] = Inr 1 \<and> ((1::int) < 0 \<or> num_bins two_bin \<le> 1) \<and>
   PerformanceBuffer_add two_bin 7 [1, 0] = Inr two_bin"
proof -
  have h: "buffer_id_of two_bin [1, 0] = Inr 1"
    by (rule buffer_id_axis1) (simp_all add: two_bin_facts)
  have r: "(1::int) < 0 \<or> num_bins two_bin \<le> 1" by (simp add: two_bin_facts)
  show ?thesis using h r add_out_of_range_noop [OF h r, of 7] by simp
qed

lemma replace_first_length:
  "replace_first pb n c ev xs es = Inr (xs', es') \<Longrightarrow> length xs' = length xs \<and> length es' = length es"
proof (induction pb n c ev xs es arbitrary: xs' es' rule: replace_first.induct)
  case (1 pb n c ev es)
  then show ?case by simp
next
  case (2 pb n c ev x xs)
  then show ?case by simp
next
  case (3 pb n c ev x xs e es)
  then show ?case
    by (auto split: sum.splits if_splits prod.splits)
qed

lemma add_inv:
  assumes "PerformanceBuffer_add pb c e = Inr pb'" and "buffer_inv pb"
  shows "buffer_inv pb' \<and> max_size pb' = max_size pb \<and> length (bins pb') = length (bins pb)"
proof -
  from assms(1) obtain ce bid where ce: "center_eval pb e = Inr ce"
    and bid: "buffer_id_of pb e = Inr bid"
    by (auto simp: PerformanceBuffer_add_def split: sum.splits)
  show ?thesis
  proof (cases "bid < 0 \<or> num_bins pb \<le> bid")
    case True
    with assms ce bid show ?thesis by (auto simp: PerformanceBuffer_add_def)
  next
    case False
    let ?b = "nat bid"
    from False assms(1) ce bid have inb: "?b < length (bins pb)"
      by (auto simp: PerformanceBuffer_add_def Let_def split: if_splits)
    from assms(2) inb have leq: "length (bins_evals pb ! ?b) = length (bins pb ! ?b)"
      and bound: "int (length (bins pb ! ?b)) \<le> max_size pb"
      and lens: "length (bins_evals pb) = length (bins pb)"
      by (simp_all add: buffer_inv_def)
    show ?thesis
    proof (cases "int (length (bins pb ! ?b)) < max_size pb")
      case True
      with False assms(1) ce bid inb lens
      have pb': "pb' = pb\<lparr> bins := (bins pb)[?b := bins pb ! ?b @ [c]],
                          bins_evals := (bins_evals pb)[?b := bins_evals pb ! ?b @ [e]] \<rparr>"
        by (auto simp: PerformanceBuffer_add_def Let_def split: if_splits)
      show ?thesis
        using assms(2) True leq lens inb unfolding pb' buffer_inv_def
        by (auto simp: nth_list_update)
    next
      case full: False
      show ?thesis
      proof (cases "bins pb ! ?b = []")
        case True
        with False full assms(1) ce bid inb have "pb' = pb"
          by (auto simp: PerformanceBuffer_add_def Let_def split: if_splits)
        with assms(2) show ?thesis by simp
      next
        case ne: False
        with False full assms(1) ce bid inb lens obtain xs' es' where
          rf: "replace_first pb (linalg_norm ce) c e (bins pb ! ?b) (bins_evals pb ! ?b) = Inr (xs', es')"
          and pb': "pb' = pb\<lparr> bins := (bins pb)[?b := xs'], bins_evals := (bins_evals pb)[?b := es'] \<rparr>"
          by (auto simp: PerformanceBuffer_add_def Let_def split: if_splits sum.splits)
        from replace_first_length [OF rf] have l: "length xs' = length (bins pb ! ?b)"
          "length es' = length (bins_evals pb ! ?b)" by simp_all
        show ?thesis
          using assms(2) l leq lens bound inb unfolding pb' buffer_inv_def
          by (auto simp: nth_list_update)
      qed
    qed
  qed
qed

lemma add_all_inv:
  "buffer_inv pb \<Longrightarrow>
   buffer_inv (PerformanceBuffer_add_all pb calls) \<and>
   max_size (PerformanceBuffer_add_all pb calls) = max_size pb \<and>
   length (bins (PerformanceBuffer_add_all pb calls)) = length (bins pb)"
proof (induction calls arbitrary: pb)
  case Nil
  then show ?case by simp
next
  case (Cons call calls)
  obtain c e where call: "call = (c, e)" by (cases call) auto
  show ?case
  proof (cases "PerformanceBuffer_add pb c e")
    case (Inl err)
    then show ?thesis using Cons.IH [OF Cons.prems] by (simp add: call)
  next
    case (Inr pb')
    from add_inv [OF Inr Cons.prems] Cons.IH [of pb'] show ?thesis
      by (simp add: call Inr)
  qed
qed

lemma init_inv:
  assumes "PerformanceBuffer_init n m r = Inr pb" and "0 \<le> m"
  shows "buffer_inv pb \<and> max_size pb = m \<and> length (bins pb) = nat n"
  using assms by (auto simp: PerformanceBuffer_init_def buffer_inv_def split: if_splits)

text \<open>
  Claim C6. A buffer constructed for \<open>num_bins\<close> bins of a capacity \<open>max_size \<ge> 0\<close> has, after
  any sequence of \<^verbatim>\<open>add\<close> calls, its \<open>num_bins\<close> bins in both lists, and no bin of either list
  holds more than \<open>max_size\<close> entries.
\<close>

theorem bins_never_exceed_max_size:
  assumes "PerformanceBuffer_init num_bins' max_size' rp = Inr pb" and "0 \<le> max_size'"
  shows "length (bins (PerformanceBuffer_add_all pb calls)) = nat num_bins' \<and>
         length (bins_evals (PerformanceBuffer_add_all pb calls)) = nat num_bins' \<and>
         list_all (\<lambda>xs. int (length xs) \<le> max_size') (bins (PerformanceBuffer_add_all pb calls)) \<and>
         list_all (\<lambda>es. int (length es) \<le> max_size') (bins_evals (PerformanceBuffer_add_all pb calls))"
proof -
  let ?pb = "PerformanceBuffer_add_all pb calls"
  from init_inv [OF assms] have i: "buffer_inv pb" "max_size pb = max_size'" "length (bins pb) = nat num_bins'"
    by simp_all
  from add_all_inv [OF i(1), of calls] i have
    inv: "buffer_inv ?pb" and m: "max_size ?pb = max_size'" and l: "length (bins ?pb) = nat num_bins'"
    by simp_all
  from inv m have a: "\<forall>b < length (bins ?pb). int (length (bins ?pb ! b)) \<le> max_size'"
    and b: "\<forall>b < length (bins_evals ?pb). int (length (bins_evals ?pb ! b)) \<le> max_size'"
    and le: "length (bins_evals ?pb) = length (bins ?pb)"
    by (simp_all add: buffer_inv_def)
  have "list_all (\<lambda>xs. int (length xs) \<le> max_size') (bins ?pb)"
    using a by (simp add: list_all_length)
  moreover have "list_all (\<lambda>es. int (length es) \<le> max_size') (bins_evals ?pb)"
    using b by (simp add: list_all_length)
  ultimately show ?thesis using l le by simp
qed

theorem bins_never_exceed_max_size_witness:
  "PerformanceBuffer_init 1 2 [0, 0] = Inr empty_bin \<and> (0::int) \<le> 2 \<and>
   length (bins (PerformanceBuffer_add_all empty_bin [(2, [0, 3]), (3, [0, 1]), (4, [0, 5])])) = nat 1 \<and>
   list_all (\<lambda>xs. int (length xs) \<le> 2)
     (bins (PerformanceBuffer_add_all empty_bin [(2, [0, 3]), (3, [0, 1]), (4, [0, 5])])) \<and>
   list_all (\<lambda>es. int (length es) \<le> 2)
     (bins_evals (PerformanceBuffer_add_all empty_bin [(2, [0, 3]), (3, [0, 1]), (4, [0, 5])]))"
proof -
  have h: "PerformanceBuffer_init 1 2 [0, 0] = Inr empty_bin"
    by (simp add: PerformanceBuffer_init_def empty_bin_def)
  show ?thesis
    using h bins_never_exceed_max_size [OF h, of "[(2, [0, 3]), (3, [0, 1]), (4, [0, 5])]"] by simp
qed

lemma replace_first_none:
  "map_err (center_eval pb) es = Inr stored \<Longrightarrow> length es = length xs
   \<Longrightarrow> \<forall>s \<in> set stored. \<not> linalg_norm s < cn
   \<Longrightarrow> replace_first pb cn c ev xs es = Inr (xs, es)"
proof (induction xs es arbitrary: stored rule: list_induct2')
  case 1
  then show ?case by simp
next
  case (2 x xs)
  then show ?case by simp
next
  case (3 e es)
  then show ?case by simp
next
  case (4 x xs e es)
  from "4.prems"(1) obtain s ss where s: "center_eval pb e = Inr s"
    and ss: "map_err (center_eval pb) es = Inr ss" and st: "stored = s # ss"
    by (auto split: sum.splits)
  from "4.prems" st have "\<not> linalg_norm s < cn" "\<forall>s \<in> set ss. \<not> linalg_norm s < cn"
    "length es = length xs" by simp_all
  with "4.IH" [OF ss] s show ?case by simp
qed

lemma replace_first_at:
  "map_err (center_eval pb) es = Inr stored \<Longrightarrow> length es = length xs
   \<Longrightarrow> i < length stored \<Longrightarrow> linalg_norm (stored ! i) < cn
   \<Longrightarrow> \<forall>j < i. \<not> linalg_norm (stored ! j) < cn
   \<Longrightarrow> replace_first pb cn c ev xs es = Inr (xs[i := c], es[i := ev])"
proof (induction xs es arbitrary: stored i rule: list_induct2')
  case 1
  then show ?case by simp
next
  case (2 x xs)
  then show ?case by simp
next
  case (3 e es)
  then show ?case by simp
next
  case (4 x xs e es)
  from "4.prems"(1) obtain s ss where s: "center_eval pb e = Inr s"
    and ss: "map_err (center_eval pb) es = Inr ss" and st: "stored = s # ss"
    by (auto split: sum.splits)
  show ?case
  proof (cases i)
    case 0
    with "4.prems" st s show ?thesis by simp
  next
    case (Suc k)
    from "4.prems"(5) Suc st have first: "\<not> linalg_norm s < cn" by auto
    from "4.prems" Suc st have k: "k < length ss" "linalg_norm (ss ! k) < cn"
      "\<forall>j < k. \<not> linalg_norm (ss ! j) < cn" "length es = length xs"
      by auto
    from "4.IH" [OF ss k(4) k(1) k(2) k(3)] first s Suc show ?thesis by simp
  qed
qed

text \<open>
  Claim C2, as the code has it. On a full bin the loop overwrites the first occupant, in bin
  order, whose centred norm is below the candidate's, and only that one; when no occupant has a
  smaller centred norm the buffer is unchanged. A replacement happens exactly when the smallest
  centred norm of the bin is below the candidate's. Here \<open>stored\<close> are the centred evaluations
  of the bin and \<open>centered_eval\<close> is the centred evaluation of the candidate.
\<close>

theorem full_bin_replaces_first_weaker:
  assumes bid: "buffer_id_of pb evaluation = Inr (int b)"
    and inr: "int b < num_bins pb" and lb: "b < length (bins pb)" and le: "b < length (bins_evals pb)"
    and full: "\<not> int (length (bins pb ! b)) < max_size pb"
    and same: "length (bins_evals pb ! b) = length (bins pb ! b)"
    and ce: "center_eval pb evaluation = Inr centered_eval"
    and st: "map_err (center_eval pb) (bins_evals pb ! b) = Inr stored"
  shows "(\<forall>i. i < length stored \<and> linalg_norm (stored ! i) < linalg_norm centered_eval \<and>
              (\<forall>j < i. \<not> linalg_norm (stored ! j) < linalg_norm centered_eval) \<longrightarrow>
            PerformanceBuffer_add pb candidate evaluation =
              Inr (pb\<lparr> bins := (bins pb)[b := (bins pb ! b)[i := candidate]],
                       bins_evals := (bins_evals pb)[b := (bins_evals pb ! b)[i := evaluation]] \<rparr>)) \<and>
         ((\<forall>s \<in> set stored. \<not> linalg_norm s < linalg_norm centered_eval) \<longrightarrow>
            PerformanceBuffer_add pb candidate evaluation = Inr pb) \<and>
         ((\<exists>s \<in> set stored. linalg_norm s < linalg_norm centered_eval) \<longleftrightarrow>
            stored \<noteq> [] \<and> Min (linalg_norm ` set stored) < linalg_norm centered_eval)"
proof (intro conjI allI impI)
  fix i
  assume i: "i < length stored \<and> linalg_norm (stored ! i) < linalg_norm centered_eval \<and>
              (\<forall>j < i. \<not> linalg_norm (stored ! j) < linalg_norm centered_eval)"
  from i st have ne: "bins pb ! b \<noteq> []"
    using same by (cases "bins_evals pb ! b") auto
  have rf: "replace_first pb (linalg_norm centered_eval) candidate evaluation (bins pb ! b) (bins_evals pb ! b)
            = Inr ((bins pb ! b)[i := candidate], (bins_evals pb ! b)[i := evaluation])"
    using replace_first_at [OF st same] i by blast
  show "PerformanceBuffer_add pb candidate evaluation =
              Inr (pb\<lparr> bins := (bins pb)[b := (bins pb ! b)[i := candidate]],
                       bins_evals := (bins_evals pb)[b := (bins_evals pb ! b)[i := evaluation]] \<rparr>)"
    using bid inr lb le full ne ce rf by (simp add: PerformanceBuffer_add_def Let_def)
next
  assume no: "\<forall>s \<in> set stored. \<not> linalg_norm s < linalg_norm centered_eval"
  have rf: "replace_first pb (linalg_norm centered_eval) candidate evaluation (bins pb ! b) (bins_evals pb ! b)
            = Inr (bins pb ! b, bins_evals pb ! b)"
    using replace_first_none [OF st same no] .
  show "PerformanceBuffer_add pb candidate evaluation = Inr pb"
    using bid inr lb le full ce rf by (simp add: PerformanceBuffer_add_def Let_def)
next
  show "(\<exists>s \<in> set stored. linalg_norm s < linalg_norm centered_eval) \<longleftrightarrow>
            stored \<noteq> [] \<and> Min (linalg_norm ` set stored) < linalg_norm centered_eval"
  proof (cases "stored = []")
    case True
    then show ?thesis by simp
  next
    case False
    then have "Min (linalg_norm ` set stored) < linalg_norm centered_eval
               \<longleftrightarrow> (\<exists>a \<in> linalg_norm ` set stored. a < linalg_norm centered_eval)"
      by (intro Min_less_iff) simp_all
    with False show ?thesis by auto
  qed
qed

theorem full_bin_replaces_first_weaker_witness:
  "buffer_id_of two_bin [0, 5] = Inr (int 0) \<and> int 0 < num_bins two_bin \<and>
   0 < length (bins two_bin) \<and> 0 < length (bins_evals two_bin) \<and>
   \<not> int (length (bins two_bin ! 0)) < max_size two_bin \<and>
   length (bins_evals two_bin ! 0) = length (bins two_bin ! 0) \<and>
   center_eval two_bin [0, 5] = Inr [0, 5] \<and>
   map_err (center_eval two_bin) (bins_evals two_bin ! 0) = Inr [[0, 3], [0, 1]] \<and>
   PerformanceBuffer_add two_bin 4 [0, 5] =
     Inr (two_bin\<lparr> bins := [[4, 3]], bins_evals := [[[0, 5], [0, 1]]] \<rparr>)"
proof -
  have h1: "buffer_id_of two_bin [0, 5] = Inr (int 0)"
    using buffer_id_axis2 [of two_bin 5] by (simp add: two_bin_facts)
  have h2: "int 0 < num_bins two_bin" by (simp add: two_bin_facts)
  have h3: "0 < length (bins two_bin)" by (simp add: two_bin_facts)
  have h4: "0 < length (bins_evals two_bin)" by (simp add: two_bin_facts)
  have h5: "\<not> int (length (bins two_bin ! 0)) < max_size two_bin" by (simp add: two_bin_facts)
  have h6: "length (bins_evals two_bin ! 0) = length (bins two_bin ! 0)" by (simp add: two_bin_facts)
  have h7: "center_eval two_bin [0, 5] = Inr [0, 5]" by (simp add: two_bin_center)
  have h8: "map_err (center_eval two_bin) (bins_evals two_bin ! 0) = Inr [[0, 3], [0, 1]]"
    by (simp add: two_bin_center two_bin_facts)
  from full_bin_replaces_first_weaker [OF h1 h2 h3 h4 h5 h6 h7 h8, of 4]
  have "0 < length [[0, 3], [0, 1 :: real]] \<and> linalg_norm ([[0, 3], [0, 1]] ! 0) < linalg_norm [0, 5] \<and>
              (\<forall>j < 0. \<not> linalg_norm ([[0, 3], [0, 1]] ! j) < linalg_norm [0, 5]) \<longrightarrow>
        PerformanceBuffer_add two_bin 4 [0, 5] =
              Inr (two_bin\<lparr> bins := (bins two_bin)[0 := (bins two_bin ! 0)[0 := 4]],
                       bins_evals := (bins_evals two_bin)[0 := (bins_evals two_bin ! 0)[0 := [0, 5]]] \<rparr>)"
    by blast
  then have "PerformanceBuffer_add two_bin 4 [0, 5] =
     Inr (two_bin\<lparr> bins := [[4, 3]], bins_evals := [[[0, 5], [0, 1]]] \<rparr>)"
    by (simp add: two_bin_facts linalg_norm_axis2)
  with h1 h2 h3 h4 h5 h6 h7 h8 show ?thesis by blast
qed

text \<open>
  Claim C2 as stated fails on which occupant is replaced. The bin holds individual 2 with
  centred norm 3 and individual 3 with centred norm 1 (built by two \<^verbatim>\<open>add\<close> calls on the
  empty buffer); adding individual 4 with centred norm 5 overwrites individual 2, the first
  weaker one, and keeps individual 3, the one with the smallest norm.
\<close>

theorem full_bin_keeps_weakest:
  "PerformanceBuffer_add_all empty_bin [(2, [0, 3]), (3, [0, 1])] = two_bin \<and>
   PerformanceBuffer_add two_bin 4 [0, 5]
     = Inr (two_bin\<lparr> bins := [[4, 3]], bins_evals := [[[0, 5], [0, 1]]] \<rparr>) \<and>
   center_eval two_bin [0, 3] = Inr [0, 3] \<and> center_eval two_bin [0, 1] = Inr [0, 1] \<and>
   linalg_norm [0, 1] < linalg_norm [0, 3]"
proof -
  have e: "origin empty_bin = [0, 0]" "dtheta empty_bin = pi / 2" "num_bins empty_bin = 1"
    "max_size empty_bin = 2" "bins empty_bin = [[]]" "bins_evals empty_bin = [[]]"
    by (simp_all add: empty_bin_def)
  let ?one = "empty_bin\<lparr> bins := [[2]], bins_evals := [[[0, 3]]] \<rparr>"
  have b1: "buffer_id_of empty_bin [0, 3] = Inr 0"
    by (rule buffer_id_axis2) (simp_all add: e)
  have c1: "center_eval empty_bin [0, 3] = Inr [0, 3]"
    by (simp add: center_eval_origin0 e)
  have a1: "PerformanceBuffer_add empty_bin 2 [0, 3] = Inr ?one"
    by (simp add: PerformanceBuffer_add_def b1 c1 e Let_def)
  have b2: "buffer_id_of ?one [0, 1] = Inr 0"
    by (rule buffer_id_axis2) (simp_all add: e)
  have c2: "center_eval ?one [0, 1] = Inr [0, 1]"
    by (simp add: center_eval_origin0 e)
  have "PerformanceBuffer_add ?one 3 [0, 1]
          = Inr (?one\<lparr> bins := [[2, 3]], bins_evals := [[[0, 3], [0, 1]]] \<rparr>)"
    by (simp add: PerformanceBuffer_add_def b2 c2 e Let_def)
  moreover have "?one\<lparr> bins := [[2, 3]], bins_evals := [[[0, 3], [0, 1]]] \<rparr> = two_bin"
    by (simp add: two_bin_def empty_bin_def)
  ultimately have a2: "PerformanceBuffer_add ?one 3 [0, 1] = Inr two_bin" by simp
  have b: "buffer_id_of two_bin [0, 5] = Inr 0"
    by (rule buffer_id_axis2) (simp_all add: two_bin_facts)
  have a3: "PerformanceBuffer_add two_bin 4 [0, 5]
              = Inr (two_bin\<lparr> bins := [[4, 3]], bins_evals := [[[0, 5], [0, 1]]] \<rparr>)"
    by (simp add: PerformanceBuffer_add_def b two_bin_center two_bin_facts linalg_norm_axis2 Let_def)
  show ?thesis
    using a1 a2 a3 by (simp add: two_bin_center linalg_norm_axis2)
qed

subsection \<open>The training loop\<close>









subsection \<open>Task and weight selection\<close>

lemma predict_all_length: "predict_all sc ts = Some (Inr ps) \<Longrightarrow> length ps = length ts"
proof (induction ts arbitrary: ps)
  case Nil
  then show ?case by simp
next
  case (Cons t ts)
  obtain e w where t: "t = (e, w)" by (cases t) auto
  from Cons.prems t obtain r rs where "predict_all sc ts = Some (Inr rs)" "ps = r # rs"
    by (auto split: option.splits sum.splits)
  with Cons.IH show ?case by simp
qed

lemma np_argmax_less: "xs \<noteq> [] \<Longrightarrow> np_argmax xs < length xs"
proof -
  assume ne: "xs \<noteq> []"
  let ?P = "\<lambda>x. x \<noteq> np_max xs"
  have "np_max xs \<in> set xs" using ne by (simp add: np_max_def)
  then have "\<not> (\<forall>x \<in> set xs. ?P x)" by blast
  then have "takeWhile ?P xs \<noteq> xs" by simp
  moreover have "length (takeWhile ?P xs) \<le> length xs" by (rule length_takeWhile_le)
  moreover have "length (takeWhile ?P xs) = length xs \<Longrightarrow> takeWhile ?P xs = xs"
    by (metis append_eq_conv_conj takeWhile_dropWhile_id take_all order_refl)
  ultimately show ?thesis unfolding np_argmax_def by linarith
qed

lemma candidate_tuples_mem:
  "(e, w) \<in> set (candidate_tuples_of selected cw ev) \<Longrightarrow> e = ev \<and> w \<in> set cw \<and> (ev, w) \<notin> set selected"
  by (auto simp: candidate_tuples_of_def)

lemma score_candidate_ok:
  assumes "score_candidate sc cw selected front cand ev bst = Some (Inr bst')"
    and "(cand, ev) \<in> set population" and "best_ok selected cw population bst"
  shows "best_ok selected cw population bst'"
proof -
  let ?ts = "candidate_tuples_of selected cw ev"
  from assms(1) obtain ps where ps: "predict_all sc ?ts = Some (Inr ps)" and ne: "ps \<noteq> []"
    by (auto simp: score_candidate_def Let_def split: option.splits sum.splits if_splits)
  let ?ms = "map (mixture_metric sc front) (map snd ps)"
  let ?k = "np_argmax ?ms"
  have k: "?k < length ?ts"
    using np_argmax_less [of ?ms] ne predict_all_length [OF ps] by simp
  then have "?ts ! ?k \<in> set ?ts" by simp
  then have mem: "snd (?ts ! ?k) \<in> set cw \<and> (ev, snd (?ts ! ?k)) \<notin> set selected"
    using candidate_tuples_mem [of "fst (?ts ! ?k)" "snd (?ts ! ?k)" selected cw ev] by simp
  from assms(1) ps ne have
    "bst' = bst \<or> bst' = Some (np_max ?ms, cand, snd (?ts ! ?k), ev, map snd ps ! ?k)"
    by (auto simp: score_candidate_def Let_def split: if_splits)
  then show ?thesis
    using assms(2,3) mem by (auto simp: best_ok_def)
qed

lemma scan_population_ok:
  "scan_population sc cw selected front pop bst = Some (Inr bst') \<Longrightarrow>
   set pop \<subseteq> set population \<Longrightarrow> best_ok selected cw population bst \<Longrightarrow>
   best_ok selected cw population bst'"
proof (induction pop arbitrary: bst)
  case Nil
  then show ?case by simp
next
  case (Cons c pop)
  obtain cand ev where c: "c = (cand, ev)" by (cases c) auto
  from Cons.prems(1) c obtain b1 where
    s: "score_candidate sc cw selected front cand ev bst = Some (Inr b1)"
    and r: "scan_population sc cw selected front pop b1 = Some (Inr bst')"
    by (auto split: option.splits sum.splits)
  from Cons.prems(2) c have "(cand, ev) \<in> set population" "set pop \<subseteq> set population" by auto
  with score_candidate_ok [OF s _ Cons.prems(3)] Cons.IH [OF r] show ?case by blast
qed

lemma assign_worker_result:
  assumes "assign_worker sc cw population i st = Some (Inr st')"
  shows "\<exists>m cand w ev pev.
           scan_population sc cw (selected_tasks st) (current_front st) population None
             = Some (Inr (Some (m, cand, w, ev, pev))) \<and>
           (cand, ev) \<in> set population \<and> w \<in> set cw \<and> (ev, w) \<notin> set (selected_tasks st) \<and>
           st' = \<lparr> sel_store = sel_store st @
                       [(sel_store st ! cand)\<lparr> global_step := global_step (sel_store st ! (sel_agents st ! i)),
                                                agent_id := int i, weights := w \<rparr>],
                   sel_agents = (sel_agents st)[i := length (sel_store st)],
                   selected_tasks = selected_tasks st @ [(ev, w)],
                   current_front = current_front st @ [pev] \<rparr>"
proof -
  from assms obtain m cand w ev pev where
    sp: "scan_population sc cw (selected_tasks st) (current_front st) population None
           = Some (Inr (Some (m, cand, w, ev, pev)))"
    by (auto simp: assign_worker_def split: option.splits sum.splits)
  have "best_ok (selected_tasks st) cw population None" by (simp add: best_ok_def)
  from scan_population_ok [OF sp _ this] have
    ok: "(cand, ev) \<in> set population \<and> w \<in> set cw \<and> (ev, w) \<notin> set (selected_tasks st)"
    by (simp add: best_ok_def)
  from assms sp have
    "st' = \<lparr> sel_store = sel_store st @
                       [(sel_store st ! cand)\<lparr> global_step := global_step (sel_store st ! (sel_agents st ! i)),
                                                agent_id := int i, weights := w \<rparr>],
                   sel_agents = (sel_agents st)[i := length (sel_store st)],
                   selected_tasks = selected_tasks st @ [(ev, w)],
                   current_front = current_front st @ [pev] \<rparr>"
    by (simp add: assign_worker_def deepcopy_def change_weights_def Let_def)
  with sp ok show ?thesis by blast
qed

lemma assign_workers_inv:
  "assign_workers sc cw population is st = Some (Inr st') \<Longrightarrow> distinct (selected_tasks st) \<Longrightarrow>
   distinct (selected_tasks st') \<and>
   length (selected_tasks st') = length (selected_tasks st) + length is \<and>
   length (current_front st') = length (current_front st) + length is"
proof (induction "is" arbitrary: st)
  case Nil
  then show ?case by simp
next
  case (Cons i "is")
  from Cons.prems(1) obtain s1 where
    a: "assign_worker sc cw population i st = Some (Inr s1)"
    and r: "assign_workers sc cw population is s1 = Some (Inr st')"
    by (auto split: option.splits sum.splits)
  from assign_worker_result [OF a] obtain ev w pev where
    n: "(ev, w) \<notin> set (selected_tasks st)"
    and s: "selected_tasks s1 = selected_tasks st @ [(ev, w)]"
    and f: "current_front s1 = current_front st @ [pev]"
    by auto
  from n s Cons.prems(2) have "distinct (selected_tasks s1)" by simp
  from Cons.IH [OF r this] s f show ?case by simp
qed

lemma toy_population: "zip (individuals two_bin) (evaluations two_bin) = [(2, [0, 3]), (3, [0, 1])]"
  by (simp add: individuals_def evaluations_def two_bin_def)

lemma toy_metric: "mixture_metric toy_scoring front w = w ! 0"
  by (simp add: mixture_metric_def toy_scoring_def)

lemma toy_predict_all: "predict_all toy_scoring ts = Some (Inr (map (\<lambda>(e, w). (w, w)) ts))"
  by (induction ts) (auto simp: toy_scoring_def)

lemma toy_scan0:
  "scan_population toy_scoring [[0, 1], [1 / 2, 1 / 2], [1, 0]] [] [] [(2, [0, 3]), (3, [0, 1])] None
     = Some (Inr (Some (1, 2, [1, 0], [0, 3], [1, 0])))"
  by (simp add: score_candidate_def candidate_tuples_of_def toy_predict_all toy_metric
      np_argmax_def np_max_def Let_def)

lemma toy_scan1:
  "scan_population toy_scoring [[0, 1], [1 / 2, 1 / 2], [1, 0]] [([0, 3], [1, 0])] [[1, 0]]
       [(2, [0, 3]), (3, [0, 1])] None
     = Some (Inr (Some (1, 3, [1, 0], [0, 1], [1, 0])))"
  by (simp add: score_candidate_def candidate_tuples_of_def toy_predict_all toy_metric
      np_argmax_def np_max_def Let_def)

lemma toy_worker0:
  "assign_worker toy_scoring [[0, 1], [1 / 2, 1 / 2], [1, 0]] [(2, [0, 3]), (3, [0, 1])] 0 toy_start
     = Some (Inr toy_mid)"
  by (simp add: assign_worker_def toy_start_def toy_scan0 deepcopy_def change_weights_def
      toy_store_def toy_mid_def Let_def del: scan_population.simps)

lemma toy_worker1:
  "assign_worker toy_scoring [[0, 1], [1 / 2, 1 / 2], [1, 0]] [(2, [0, 3]), (3, [0, 1])] 1 toy_mid
     = Some (Inr toy_end)"
  by (simp add: assign_worker_def toy_mid_def toy_scan1 deepcopy_def change_weights_def
      toy_store_def toy_end_def Let_def del: scan_population.simps)

lemma generate_weights_half: "generate_weights (1 / 2) = Inr [[0, 1], [1 / 2, 1 / 2], [1, 0]]"
  by (simp add: generate_weights_def np_linspace_def py_int_def upt_rec)

text \<open>
  Claim C5. In a generation over the candidate weights \<open>shuffle ws\<close> and the population of the
  buffer, the state after the first \<open>i\<close> workers have been served holds \<open>i\<close> selected
  (prior evaluation, weight) pairs, pairwise distinct, and a speculative front (the one that
  scores the candidates of worker \<open>i + 1\<close>) of the length of the initial front plus \<open>i\<close>.
  With \<open>i\<close> the number of workers this state is the result of \<^verbatim>\<open>__task_weight_selection\<close>.
\<close>

theorem selected_tasks_distinct:
  assumes "generate_weights (d / 2) = Inr ws"
    and "assign_workers sc (shuffle ws) (zip (individuals pb) (evaluations pb)) [0..<i]
           \<lparr> sel_store = store, sel_agents = ags, selected_tasks = [],
             current_front = archive_evaluations \<rparr> = Some (Inr st)"
  shows "distinct (selected_tasks st) \<and> length (selected_tasks st) = i \<and>
         length (current_front st) = length archive_evaluations + i \<and>
         (i = length ags \<longrightarrow>
            task_weight_selection sc shuffle d archive_evaluations pb store ags = Some (Inr st))"
  using assign_workers_inv [OF assms(2)] assms
  by (auto simp: task_weight_selection_def)

theorem selected_tasks_distinct_witness:
  "generate_weights (1 / 2) = Inr [[0, 1], [1 / 2, 1 / 2], [1, 0]] \<and>
   assign_workers toy_scoring [[0, 1], [1 / 2, 1 / 2], [1, 0]]
     (zip (individuals two_bin) (evaluations two_bin)) [0..<2]
     \<lparr> sel_store = toy_store, sel_agents = [0, 1], selected_tasks = [], current_front = [] \<rparr>
     = Some (Inr toy_end) \<and>
   distinct (selected_tasks toy_end) \<and> length (selected_tasks toy_end) = 2 \<and>
   length (current_front toy_end) = 2 \<and>
   task_weight_selection toy_scoring (\<lambda>ws. ws) 1 [] two_bin toy_store [0, 1] = Some (Inr toy_end)"
proof -
  have h1: "generate_weights (1 / 2) = Inr [[0, 1], [1 / 2, 1 / 2], [1, 0]]"
    by (rule generate_weights_half)
  have l: "[0..<2] = [0, 1]" by (simp add: upt_rec)
  have h2: "assign_workers toy_scoring ((\<lambda>ws. ws) [[0, 1], [1 / 2, 1 / 2], [1, 0]])
     (zip (individuals two_bin) (evaluations two_bin)) [0..<2]
     \<lparr> sel_store = toy_store, sel_agents = [0, 1], selected_tasks = [], current_front = [] \<rparr>
     = Some (Inr toy_end)"
    using toy_worker0 toy_worker1 by (simp add: l toy_population toy_start_def)
  show ?thesis
    using h1 h2
      selected_tasks_distinct [of 1 _ toy_scoring "\<lambda>ws. ws" two_bin 2 toy_store "[0, 1]" "[]" toy_end]
    by simp
qed

text \<open>
  Claim C8. When the body of the loop for worker \<open>i\<close> returns, the pair chosen by the scan of
  the population is \<open>(cand, w)\<close> and the agent now in slot \<open>i\<close> is a new object: its
  reference is the first unused one, so it differs from \<open>cand\<close> (and from every object that
  existed), and all earlier objects, the archived winner among them, are as they were. The new
  object has the winner's policy, the \<^verbatim>\<open>global_step\<close> of the agent that held slot \<open>i\<close>, the
  identity \<open>i\<close> and the weight \<open>w\<close>.
\<close>

theorem installed_agent_is_fresh_copy:
  assumes "assign_worker sc cw population i st = Some (Inr st')"
    and "list_all (\<lambda>(cand, ev). cand < length (sel_store st)) population"
    and "i < length (sel_agents st)"
  shows "\<exists>m cand w ev pev.
           scan_population sc cw (selected_tasks st) (current_front st) population None
             = Some (Inr (Some (m, cand, w, ev, pev))) \<and>
           (cand, ev) \<in> set population \<and>
           sel_agents st' ! i \<noteq> cand \<and>
           sel_agents st' ! i = length (sel_store st) \<and>
           take (length (sel_store st)) (sel_store st') = sel_store st \<and>
           sel_store st' ! cand = sel_store st ! cand \<and>
           policy (sel_store st' ! (sel_agents st' ! i)) = policy (sel_store st ! cand) \<and>
           global_step (sel_store st' ! (sel_agents st' ! i))
             = global_step (sel_store st ! (sel_agents st ! i)) \<and>
           agent_id (sel_store st' ! (sel_agents st' ! i)) = int i \<and>
           weights (sel_store st' ! (sel_agents st' ! i)) = w"
proof -
  from assign_worker_result [OF assms(1)] obtain m cand w ev pev where
    sp: "scan_population sc cw (selected_tasks st) (current_front st) population None
           = Some (Inr (Some (m, cand, w, ev, pev)))"
    and mem: "(cand, ev) \<in> set population"
    and st': "st' = \<lparr> sel_store = sel_store st @
                       [(sel_store st ! cand)\<lparr> global_step := global_step (sel_store st ! (sel_agents st ! i)),
                                                agent_id := int i, weights := w \<rparr>],
                   sel_agents = (sel_agents st)[i := length (sel_store st)],
                   selected_tasks = selected_tasks st @ [(ev, w)],
                   current_front = current_front st @ [pev] \<rparr>"
    by blast
  from mem assms(2) have c: "cand < length (sel_store st)" by (auto simp: list_all_iff)
  show ?thesis
    using sp mem c assms(3) unfolding st'
    by (intro exI [of _ m] exI [of _ cand] exI [of _ w] exI [of _ ev] exI [of _ pev])
       (simp add: nth_append)
qed

theorem installed_agent_is_fresh_copy_witness:
  "assign_worker toy_scoring [[0, 1], [1 / 2, 1 / 2], [1, 0]] [(2, [0, 3]), (3, [0, 1])] 0 toy_start
     = Some (Inr toy_mid) \<and>
   list_all (\<lambda>(cand, ev). cand < length (sel_store toy_start)) [(2, [0, 3]), (3, [0, 1 :: real])] \<and>
   0 < length (sel_agents toy_start) \<and>
   scan_population toy_scoring [[0, 1], [1 / 2, 1 / 2], [1, 0]] (selected_tasks toy_start)
       (current_front toy_start) [(2, [0, 3]), (3, [0, 1])] None
     = Some (Inr (Some (1, 2, [1, 0], [0, 3], [1, 0]))) \<and>
   sel_agents toy_mid ! 0 = 4 \<and> sel_agents toy_mid ! 0 \<noteq> 2 \<and>
   sel_store toy_mid ! 2 = sel_store toy_start ! 2 \<and>
   policy (sel_store toy_mid ! 4) = policy (sel_store toy_start ! 2) \<and>
   global_step (sel_store toy_mid ! 4) = global_step (sel_store toy_start ! 0) \<and>
   agent_id (sel_store toy_mid ! 4) = 0 \<and>
   weights (sel_store toy_mid ! 4) = [1, 0]"
proof -
  have h1: "assign_worker toy_scoring [[0, 1], [1 / 2, 1 / 2], [1, 0]] [(2, [0, 3]), (3, [0, 1])] 0 toy_start
     = Some (Inr toy_mid)" by (rule toy_worker0)
  have h2: "list_all (\<lambda>(cand, ev). cand < length (sel_store toy_start)) [(2, [0, 3]), (3, [0, 1 :: real])]"
    by (simp add: toy_start_def toy_store_def)
  have h3: "0 < length (sel_agents toy_start)" by (simp add: toy_start_def)
  show ?thesis
    using h1 h2 h3 installed_agent_is_fresh_copy [OF h1 h2 h3]
    by (simp add: toy_start_def toy_mid_def toy_store_def toy_scan0 del: scan_population.simps)
qed

end
